theory Spec2Isabelle
  imports Complex_Main "HOL-Library.Multiset" "HOL-Library.AList" "HOL-Library.Log_Nat"
    "HOL-Library.Code_Target_Nat"
begin

section \<open>JavaScript values used by the statistics script\<close>

subsection \<open>Numbers\<close>

text \<open>
  A JavaScript number is \<^verbatim>\<open>NaN\<close>, an infinity, or a finite binary64 value, kept as
  the exact rational it denotes. The exponent range of binary64 is not modelled (no
  overflow to an infinity, no subnormal numbers, no negative zero): the numbers of the
  script are time stamps, years, byte counts and their quotients.
\<close>

datatype jsnum = NaN | Num rat | PosInf | NegInf

text \<open>
  Rounding to the nearest number with a 53-bit significand, ties to the even
  significand, as every arithmetic operation of binary64 does. \<open>binade x\<close> is the
  exponent \<open>e\<close> with \<open>2 ^ e \<le> \<bar>x\<bar> < 2 ^ (e + 1)\<close>.
\<close>

definition round_half_even :: "rat \<Rightarrow> int" where
  "round_half_even m =
     (let f = \<lfloor>m\<rfloor>; d = m - of_int f
      in if d < 1 / 2 then f else if 1 / 2 < d then f + 1 else if even f then f else f + 1)"

definition binade :: "rat \<Rightarrow> int" where
  "binade x =
     (let (a, b) = quotient_of \<bar>x\<bar>;
          e = bitlen a - bitlen b
      in if 2 powi e \<le> \<bar>x\<bar> then e else e - 1)"

definition binary64 :: "rat \<Rightarrow> rat" where
  "binary64 x =
     (if x = 0 then 0
      else let ulp = 2 powi (binade x - 52)
           in sgn x * of_int (round_half_even (\<bar>x\<bar> / ulp)) * ulp)"

fun js_sub :: "jsnum \<Rightarrow> jsnum \<Rightarrow> jsnum" where
  "js_sub (Num a) (Num b) = Num (binary64 (a - b))"
| "js_sub NaN _ = NaN"
| "js_sub _ NaN = NaN"
| "js_sub PosInf PosInf = NaN"
| "js_sub NegInf NegInf = NaN"
| "js_sub PosInf _ = PosInf"
| "js_sub NegInf _ = NegInf"
| "js_sub (Num a) PosInf = NegInf"
| "js_sub (Num a) NegInf = PosInf"

fun js_mul :: "jsnum \<Rightarrow> jsnum \<Rightarrow> jsnum" where
  "js_mul (Num a) (Num b) = Num (binary64 (a * b))"
| "js_mul NaN _ = NaN"
| "js_mul _ NaN = NaN"
| "js_mul PosInf (Num b) = (if b = 0 then NaN else if 0 < b then PosInf else NegInf)"
| "js_mul NegInf (Num b) = (if b = 0 then NaN else if 0 < b then NegInf else PosInf)"
| "js_mul (Num a) PosInf = (if a = 0 then NaN else if 0 < a then PosInf else NegInf)"
| "js_mul (Num a) NegInf = (if a = 0 then NaN else if 0 < a then NegInf else PosInf)"
| "js_mul PosInf PosInf = PosInf"
| "js_mul NegInf NegInf = PosInf"
| "js_mul PosInf NegInf = NegInf"
| "js_mul NegInf PosInf = NegInf"

fun js_div :: "jsnum \<Rightarrow> jsnum \<Rightarrow> jsnum" where
  "js_div (Num a) (Num b) =
     (if b \<noteq> 0 then Num (binary64 (a / b))
      else if a = 0 then NaN else if 0 < a then PosInf else NegInf)"
| "js_div NaN _ = NaN"
| "js_div _ NaN = NaN"
| "js_div PosInf (Num b) = (if 0 \<le> b then PosInf else NegInf)"
| "js_div NegInf (Num b) = (if 0 \<le> b then NegInf else PosInf)"
| "js_div (Num a) PosInf = Num 0"
| "js_div (Num a) NegInf = Num 0"
| "js_div PosInf PosInf = NaN"
| "js_div NegInf NegInf = NaN"
| "js_div PosInf NegInf = NaN"
| "js_div NegInf PosInf = NaN"

text \<open>An integer of the program (a byte count, a year) as a number.\<close>

definition num_of_nat :: "nat \<Rightarrow> jsnum" where
  "num_of_nat n = Num (of_nat n)"

definition num_of_int :: "int \<Rightarrow> jsnum" where
  "num_of_int n = Num (of_int n)"

subsection \<open>Strings of numbers\<close>

text \<open>The decimal digits of a natural number, as a template literal prints it.\<close>

definition digit_char :: "nat \<Rightarrow> char" where
  "digit_char d = ''0123456789'' ! d"

fun decimal :: "nat \<Rightarrow> string" where
  "decimal n = (if n < 10 then [digit_char n] else decimal (n div 10) @ [digit_char (n mod 10)])"

definition padStart :: "nat \<Rightarrow> char \<Rightarrow> string \<Rightarrow> string" where
  "padStart n c s = replicate (n - length s) c @ s"

text \<open>
  \<^verbatim>\<open>Number.prototype.toFixed(f)\<close>: \<open>n\<close> is the integer for which \<open>n / 10 ^ f\<close> is
  nearest to the number (the larger one of two), printed with \<open>f\<close> digits after the
  point. (From \<open>10 ^ 21\<close> on JavaScript prints the number in another way; the numbers
  printed here are percentages and megabytes.)
\<close>

fun toFixed :: "nat \<Rightarrow> jsnum \<Rightarrow> string" where
  "toFixed f NaN = ''NaN''"
| "toFixed f PosInf = ''Infinity''"
| "toFixed f NegInf = ''-Infinity''"
| "toFixed f (Num x) =
     (let n = nat \<lfloor>\<bar>x\<bar> * 10 ^ f + 1 / 2\<rfloor>;
          m = padStart (f + 1) (CHR ''0'') (decimal n);
          k = length m
      in (if x < 0 then ''-'' else []) @
         (if f = 0 then m else take (k - f) m @ ''.'' @ drop (k - f) m))"

text \<open>
  \<^verbatim>\<open>parseFloat\<close> reads the longest prefix that is a decimal literal: an optional
  minus sign, then \<^verbatim>\<open>Infinity\<close> or digits with an optional point and more digits; with
  no such prefix the result is \<^verbatim>\<open>NaN\<close>. The result is the binary64 number nearest
  to the decimal value \<open>decimal_value\<close>. (Leading white space, a plus sign and an
  exponent part are not modelled: the strings parsed here are results of
  \<^verbatim>\<open>toFixed(1)\<close>.)
\<close>

definition is_digit :: "char \<Rightarrow> bool" where
  "is_digit c = (c \<in> set ''0123456789'')"

definition digits_value :: "string \<Rightarrow> nat" where
  "digits_value ds = foldl (\<lambda>a c. 10 * a + (of_char c - 48)) 0 ds"

definition decimal_value :: "string \<Rightarrow> rat option" where
  "decimal_value s =
     (let ip = takeWhile is_digit s;
          r = dropWhile is_digit s;
          fp = (case r of [] \<Rightarrow> [] | c # t \<Rightarrow> if c = CHR ''.'' then takeWhile is_digit t else [])
      in if ip = [] \<and> fp = [] then None
         else Some (of_nat (digits_value ip) + of_nat (digits_value fp) / 10 ^ length fp))"

definition parseFloat :: "string \<Rightarrow> jsnum" where
  "parseFloat s =
     (let neg = (take 1 s = ''-'');
          t = (if neg then drop 1 s else s)
      in if take 8 t = ''Infinity'' then (if neg then NegInf else PosInf)
         else case decimal_value t of
                None \<Rightarrow> NaN
              | Some v \<Rightarrow> Num (binary64 (if neg then - v else v)))"

subsection \<open>Dates\<close>

text \<open>
  The script works on calendar days written as ISO strings \<^verbatim>\<open>YYYY-MM-DD\<close> (the part
  of a commit's author date before the \<^verbatim>\<open>T\<close>). Two such strings are equal exactly
  when they name the same day, and \<^verbatim>\<open>new Date(s)\<close> reads one as midnight UTC of that
  day. A date is therefore modelled by its day number (days since 1970-01-01, negative
  before); \<open>Date_ms\<close> is the millisecond time stamp of \<^verbatim>\<open>new Date(s)\<close>, and \<open>Date\<close>
  the same as a number.

  The clock is an input: \<open>today\<close> is the day number of \<^verbatim>\<open>new Date()\<close> in UTC. The
  script runs with the process time zone UTC (the hosted workflow runner), where
  \<^verbatim>\<open>setDate(getDate() - 1)\<close> moves the UTC calendar day back by exactly one and
  \<^verbatim>\<open>getFullYear()\<close> is the year of the UTC day.
\<close>

type_synonym date = int

definition Date_ms :: "date \<Rightarrow> int" where
  "Date_ms d = d * 86400000"

definition Date :: "date \<Rightarrow> jsnum" where
  "Date d = num_of_int (Date_ms d)"

text \<open>
  \<^verbatim>\<open>getFullYear()\<close> of a date: the year of the proleptic Gregorian calendar in which
  the day lies, computed from the day number by the usual era arithmetic (an era is 400
  years, 146097 days, starting on a 1 March).
\<close>

definition getFullYear :: "date \<Rightarrow> int" where
  "getFullYear d =
     (let z = d + 719468;
          era = z div 146097;
          doe = z - era * 146097;
          yoe = (doe - doe div 1460 + doe div 36524 - doe div 146096) div 365;
          doy = doe - (365 * yoe + yoe div 4 - yoe div 100);
          mp = (5 * doy + 2) div 153;
          m = (if mp < 10 then mp + 3 else mp - 9)
      in yoe + era * 400 + (if m \<le> 2 then 1 else 0))"

subsection \<open>Arrays, sets and objects\<close>

text \<open>
  \<^verbatim>\<open>Array.prototype.sort(cmp)\<close> is a stable sort; a comparator result that is
  \<^verbatim>\<open>NaN\<close> counts as \<open>0\<close>. For a comparator that orders consistently (all the
  comparators of the script are differences of a key) the result of every stable sort
  is the same list, computed here by insertion from the right: an element moves behind
  exactly the elements it compares strictly greater than.
\<close>

fun js_pos :: "jsnum \<Rightarrow> bool" where
  "js_pos NaN = False"
| "js_pos (Num v) = (0 < v)"
| "js_pos PosInf = True"
| "js_pos NegInf = False"

fun insort_cmp :: "('a \<Rightarrow> 'a \<Rightarrow> jsnum) \<Rightarrow> 'a \<Rightarrow> 'a list \<Rightarrow> 'a list" where
  "insort_cmp cmp x [] = [x]"
| "insort_cmp cmp x (y # ys) =
     (if js_pos (cmp x y) then y # insort_cmp cmp x ys else x # y # ys)"

definition sort_cmp :: "('a \<Rightarrow> 'a \<Rightarrow> jsnum) \<Rightarrow> 'a list \<Rightarrow> 'a list" where
  "sort_cmp cmp xs = foldr (insort_cmp cmp) xs []"

text \<open>\<^verbatim>\<open>Array.prototype.join\<close> on strings.\<close>

fun join :: "string \<Rightarrow> string list \<Rightarrow> string" where
  "join sep [] = []"
| "join sep [s] = s"
| "join sep (s # t # ss) = s @ sep @ join sep (t # ss)"

text \<open>
  A \<^verbatim>\<open>Set\<close> is the list of its elements in insertion order;
  \<^verbatim>\<open>[...new Set(dates)]\<close> is the list of the distinct elements in the order of their
  first occurrence.
\<close>

definition Set_add :: "'a list \<Rightarrow> 'a \<Rightarrow> 'a list" where
  "Set_add seen x = (if x \<in> set seen then seen else seen @ [x])"

fun Set_of :: "'a list \<Rightarrow> 'a list \<Rightarrow> 'a list" where
  "Set_of seen [] = seen"
| "Set_of seen (x # xs) = Set_of (Set_add seen x) xs"

text \<open>
  A plain object is an association list in the order in which its properties were
  created; assigning to an existing property keeps its place (\<open>AList.update\<close>).
  \<^verbatim>\<open>Object.entries\<close> lists the properties whose names are array indices (the
  canonical decimal numbers from \<open>0\<close> to \<open>2 ^ 32 - 2\<close>) first, in ascending numeric
  order, and then the others in creation order. The keys of the yearly table are years,
  kept as integers; the keys of the language table are language names, none of which is
  a number or a property of \<^verbatim>\<open>Object.prototype\<close>, so its entries come in creation
  order.
\<close>

definition Object_entries_int :: "(int \<times> 'v) list \<Rightarrow> (int \<times> 'v) list" where
  "Object_entries_int obj =
     sort_key fst (filter (\<lambda>(k, v). 0 \<le> k \<and> k < 2 ^ 32 - 1) obj) @
     filter (\<lambda>(k, v). \<not> (0 \<le> k \<and> k < 2 ^ 32 - 1)) obj"

section \<open>calculateStreaks\<close>

record streaks =
  current :: nat
  longest :: nat
  total :: nat

text \<open>
  The loop of lines 77--85: \<open>i\<close> counts the iterations, \<open>checkDate\<close> walks back one
  day per hit, and a miss leaves the loop.
\<close>

function current_loop :: "date list \<Rightarrow> nat \<Rightarrow> date \<Rightarrow> nat \<Rightarrow> nat" where
  "current_loop sortedDates i checkDate currentStreak =
     (if i < length sortedDates then
        (if checkDate \<in> set sortedDates
         then current_loop sortedDates (i + 1) (checkDate - 1) (currentStreak + 1)
         else currentStreak)
      else currentStreak)"
  by pat_completeness auto
termination
  by (relation "measure (\<lambda>(sortedDates, i, checkDate, currentStreak). length sortedDates - i)") auto

text \<open>
  The loop of lines 88--103 on the state \<open>(tempStreak, longestStreak)\<close>; the result is
  the state after the last iteration.
\<close>

function longest_loop :: "date list \<Rightarrow> nat \<Rightarrow> nat \<times> nat \<Rightarrow> nat \<times> nat" where
  "longest_loop sortedDates i (tempStreak, longestStreak) =
     (if i < length sortedDates then
        (if i = 0 then longest_loop sortedDates (i + 1) (1, longestStreak)
         else
           let prev = Date_ms (sortedDates ! (i - 1));
               curr = Date_ms (sortedDates ! i);
               diffDays = (prev - curr) div (1000 * 60 * 60 * 24)
           in if diffDays = 1
              then longest_loop sortedDates (i + 1) (tempStreak + 1, longestStreak)
              else longest_loop sortedDates (i + 1) (1, max longestStreak tempStreak))
      else (tempStreak, longestStreak))"
  by pat_completeness auto
termination
  by (relation "measure (\<lambda>(sortedDates, i, st). length sortedDates - i)") auto

definition calculateStreaks :: "date \<Rightarrow> date list \<Rightarrow> streaks" where
  "calculateStreaks today dates =
     (if length dates = 0 then \<lparr>current = 0, longest = 0, total = 0\<rparr>
      else
        let sortedDates = sort_cmp (\<lambda>a b. js_sub (Date b) (Date a)) (Set_of [] dates);
            currentStreak = current_loop sortedDates 0 today 0;
            (tempStreak, longestStreak) = longest_loop sortedDates 0 (0, 0);
            longestStreak = max longestStreak tempStreak
        in \<lparr>current = currentStreak, longest = longestStreak, total = length sortedDates\<rparr>)"

section \<open>calculateYearlyStats\<close>

record year_stat =
  year :: int
  activeDays :: nat
  contributions :: nat

text \<open>
  The table \<^verbatim>\<open>yearly\<close>: for each year seen so far, the \<^verbatim>\<open>Set\<close> of its dates and
  its contribution counter.
\<close>

type_synonym yearly = "(int \<times> (date list \<times> nat)) list"

text \<open>The body of the \<^verbatim>\<open>forEach\<close> of lines 117--124.\<close>

definition yearly_add :: "yearly \<Rightarrow> date \<Rightarrow> yearly" where
  "yearly_add yearly date =
     (let year = getFullYear date;
          yearly = (if map_of yearly year = None
                    then AList.update year ([], 0) yearly else yearly)
      in AList.map_entry year
           (\<lambda>(days, contributions). (Set_add days date, contributions + 1)) yearly)"

definition calculateYearlyStats :: "date list \<Rightarrow> year_stat list" where
  "calculateYearlyStats dates =
     (let yearly = foldl yearly_add [] dates
      in map (\<lambda>(year, (days, contributions)).
                \<lparr>year = year, activeDays = length days, contributions = contributions\<rparr>)
           (sort_cmp (\<lambda>a b. js_sub (num_of_int (fst b)) (num_of_int (fst a))) (Object_entries_int yearly)))"

section \<open>The process environment, the API and the console\<close>

text \<open>
  \<^verbatim>\<open>process.env.GITHUB_TOKEN\<close> and \<^verbatim>\<open>process.env.USERNAME\<close> (lines 4--5): a variable
  that is not set reads as \<^verbatim>\<open>undefined\<close>, which a template literal prints as the
  nine letters \<^verbatim>\<open>undefined\<close>.
\<close>

record env =
  GITHUB_TOKEN :: "string option"
  USERNAME :: "string option"

definition template :: "string option \<Rightarrow> string" where
  "template v = (case v of None \<Rightarrow> ''undefined'' | Some s \<Rightarrow> s)"

text \<open>
  The options of one \<^verbatim>\<open>https.get\<close> call, and what comes back: a response with its
  status code, its body text and the JSON value the body denotes, or a transport error.
  The JSON values are typed by the endpoint: a page of repositories, a page of commits,
  the byte counts of a repository's languages. (A response with status 200 carries a
  JSON body of the endpoint's shape.) The field \<open>http_method\<close> is the option
  \<^verbatim>\<open>method\<close> of the script.
\<close>

datatype js_error = Error string

record request =
  hostname :: string
  path :: string
  http_method :: string
  headers :: "(string \<times> string) list"

datatype 'a http_result = Response nat string 'a | Transport_error js_error

record repo =
  owner_login :: string
  repo_name :: string
  fork :: bool

text \<open>
  Of a commit the script reads \<^verbatim>\<open>commit.commit.author.date.split('T')[0]\<close> when
  \<^verbatim>\<open>commit.commit\<close> and \<^verbatim>\<open>commit.commit.author\<close> are there: the calendar day of
  the author date, if any.
\<close>

datatype commit = Commit (author_date: "date option")

record world =
  user_repos :: "request \<Rightarrow> repo list http_result"
  repo_commits :: "request \<Rightarrow> commit list http_result"
  repo_languages :: "request \<Rightarrow> (string \<times> nat) list http_result"

text \<open>
  What the run has done so far: the requests issued, in order, and the lines written
  by \<^verbatim>\<open>console.log\<close>.
\<close>

record io =
  requests :: "request list"
  console :: "string list"

definition console_log :: "string \<Rightarrow> io \<Rightarrow> io" where
  "console_log line io = io\<lparr>console := console io @ [line]\<rparr>"

text \<open>
  \<open>githubRequest\<close> (lines 8--33): the promise resolves with the parsed body on status
  200 and is rejected with an error otherwise; \<open>Inl\<close> is the rejection.
\<close>

definition githubRequest ::
  "env \<Rightarrow> (request \<Rightarrow> 'a http_result) \<Rightarrow> string \<Rightarrow> io \<Rightarrow> (js_error + 'a) \<times> io" where
  "githubRequest env https_get p io =
     (let options = \<lparr>hostname = ''api.github.com'', path = p, http_method = ''GET'',
            headers = [(''User-Agent'', ''GitHub-Stats-Generator''),
                       (''Authorization'', ''token '' @ template (GITHUB_TOKEN env)),
                       (''Accept'', ''application/vnd.github.v3+json'')]\<rparr>;
          io = io\<lparr>requests := requests io @ [options]\<rparr>
      in case https_get options of
           Response statusCode data parsed \<Rightarrow>
             if statusCode = 200 then (Inr parsed, io)
             else (Inl (Error (''GitHub API error: '' @ decimal statusCode @ '' - '' @ data)), io)
         | Transport_error e \<Rightarrow> (Inl e, io))"

text \<open>
  \<open>getAllRepos\<close> (lines 36--51). The loop runs as long as the pages are full, which
  may be for ever: \<open>None\<close> is the run that does not return.
\<close>

partial_function (option) getAllRepos_loop ::
  "env \<Rightarrow> world \<Rightarrow> repo list \<Rightarrow> nat \<Rightarrow> io \<Rightarrow> ((js_error + repo list) \<times> io) option" where
  "getAllRepos_loop env w repos page io =
     (case githubRequest env (user_repos w)
             (''/user/repos?per_page=100&page='' @ decimal page @
              ''&affiliation=owner,collaborator,organization_member'') io of
        (Inl e, io) \<Rightarrow> Some (Inl e, io)
      | (Inr data, io) \<Rightarrow>
          let nonForkedRepos = filter (\<lambda>repo. \<not> fork repo) data;
              repos = repos @ nonForkedRepos;
              hasMore = (length data = 100)
          in if hasMore then getAllRepos_loop env w repos (page + 1) io
             else Some (Inr repos, io))"

declare getAllRepos_loop.simps [code]

definition getAllRepos :: "env \<Rightarrow> world \<Rightarrow> io \<Rightarrow> ((js_error + repo list) \<times> io) option" where
  "getAllRepos env w io = getAllRepos_loop env w [] 1 io"

text \<open>\<open>getCommitActivity\<close> (lines 54--62).\<close>

definition getCommitActivity ::
  "env \<Rightarrow> world \<Rightarrow> string \<Rightarrow> string \<Rightarrow> io \<Rightarrow> commit list \<times> io" where
  "getCommitActivity env w owner repo io =
     (case githubRequest env (repo_commits w)
             (''/repos/'' @ owner @ ''/'' @ repo @ ''/commits?author='' @
              template (USERNAME env) @ ''&per_page=100'') io of
        (Inr commits, io) \<Rightarrow> (commits, io)
      | (Inl error, io) \<Rightarrow>
          ([], console_log (''Could not fetch commits for '' @ owner @ ''/'' @ repo) io))"

section \<open>getLanguageStats\<close>

record lang_stat =
  name :: string
  percentage :: string

definition excludedLanguages :: "string list" where
  "excludedLanguages = [''Open Policy Agent'', ''SCSS'', ''Scss'']"

text \<open>
  The table \<^verbatim>\<open>languages\<close>: the bytes of each language name seen so far. Byte counts
  are natural numbers, and their sums are exact in binary64 below \<open>2 ^ 53\<close>; they are
  added as natural numbers.
\<close>

type_synonym languages = "(string \<times> nat) list"

text \<open>The body of the inner loop, lines 144--150.\<close>

fun add_language :: "languages \<Rightarrow> string \<times> nat \<Rightarrow> languages" where
  "add_language languages (lang, bytes) =
     (if lang \<in> set excludedLanguages then languages
      else AList.update lang
             ((case map_of languages lang of None \<Rightarrow> 0 | Some b \<Rightarrow> b) + bytes) languages)"

text \<open>The loop over the repositories, lines 140--160.\<close>

fun aggregate_languages ::
  "env \<Rightarrow> world \<Rightarrow> repo list \<Rightarrow> languages \<Rightarrow> io \<Rightarrow> languages \<times> io" where
  "aggregate_languages env w [] languages io = (languages, io)"
| "aggregate_languages env w (repo # repos) languages io =
     (case githubRequest env (repo_languages w)
             (''/repos/'' @ owner_login repo @ ''/'' @ repo_name repo @ ''/languages'') io of
        (Inr repoLangs, io) \<Rightarrow>
          let languages = foldl add_language languages repoLangs;
              includedLangs = filter (\<lambda>l. l \<notin> set excludedLanguages) (map fst repoLangs);
              io = (if length includedLangs > 0
                    then console_log (repo_name repo @ '': '' @ join '', '' includedLangs) io
                    else io)
          in aggregate_languages env w repos languages io
      | (Inl error, io) \<Rightarrow>
          aggregate_languages env w repos languages
            (console_log (''Could not fetch languages for '' @ repo_name repo) io))"

text \<open>
  The percentage of a language (lines 169 and 176), and the rest of the function:
  the total (line 162), the listing on the console (lines 164--171) and the result
  (lines 173--179).
\<close>

definition percent :: "nat \<Rightarrow> nat \<Rightarrow> string" where
  "percent bytes total_bytes =
     toFixed 1 (js_mul (js_div (num_of_nat bytes) (num_of_nat total_bytes)) (Num 100))"

text \<open>The arrow functions of lines 166--170 and 174--178.\<close>

definition by_bytes :: "string \<times> nat \<Rightarrow> string \<times> nat \<Rightarrow> jsnum" where
  "by_bytes a b = js_sub (num_of_nat (snd b)) (num_of_nat (snd a))"

fun listing_line :: "nat \<Rightarrow> string \<times> nat \<Rightarrow> string" where
  "listing_line total_bytes (lang, bytes) =
     (let mb = toFixed 2 (js_div (js_div (num_of_nat bytes) (Num 1024)) (Num 1024));
          pct = percent bytes total_bytes
      in ''  '' @ lang @ '': '' @ mb @ '' MB ('' @ pct @ ''%)'')"

fun percentage_entry :: "nat \<Rightarrow> string \<times> nat \<Rightarrow> lang_stat" where
  "percentage_entry total_bytes (lang, bytes) =
     \<lparr>name = lang, percentage = percent bytes total_bytes\<rparr>"

definition by_percentage :: "lang_stat \<Rightarrow> lang_stat \<Rightarrow> jsnum" where
  "by_percentage a b = js_sub (parseFloat (percentage b)) (parseFloat (percentage a))"

definition getLanguageStats :: "env \<Rightarrow> world \<Rightarrow> repo list \<Rightarrow> io \<Rightarrow> lang_stat list \<times> io" where
  "getLanguageStats env w repos io =
     (let (languages, io) = aggregate_languages env w repos [] io;
          total = foldl (+) 0 (map snd languages);
          io = console_log (CHR 0x0A # ''Total bytes per language:'') io;
          io = io\<lparr>console := console io @
                             map (listing_line total) (sort_cmp by_bytes languages)\<rparr>
      in (take 10 (sort_cmp by_percentage (map (percentage_entry total) languages)), io))"

section \<open>main, up to the statistics\<close>

text \<open>
  The run of \<open>main\<close> from its start to line 210, where the three statistics are
  there, and the handler of line 257: a rejection ends the process with status 1. What
  follows line 210 (the new text of the README file) needs the statistics only.
\<close>

fun collect_dates :: "env \<Rightarrow> world \<Rightarrow> repo list \<Rightarrow> date list \<Rightarrow> io \<Rightarrow> date list \<times> io" where
  "collect_dates env w [] allDates io = (allDates, io)"
| "collect_dates env w (repo # repos) allDates io =
     (let (commits, io) = getCommitActivity env w (owner_login repo) (repo_name repo) io;
          allDates = allDates @ List.map_filter author_date commits
      in collect_dates env w repos allDates io)"

record statistics =
  streaks :: streaks
  yearlyStats :: "year_stat list"
  languageStats :: "lang_stat list"

datatype outcome = Statistics statistics | Exit_1 js_error

definition empty_io :: io where
  "empty_io = \<lparr>requests = [], console = []\<rparr>"

definition main :: "env \<Rightarrow> world \<Rightarrow> date \<Rightarrow> (outcome \<times> io) option" where
  "main env w today =
     (let io = console_log ''Fetching repositories...'' empty_io
      in case getAllRepos env w io of
           None \<Rightarrow> None
         | Some (Inl e, io) \<Rightarrow> Some (Exit_1 e, io)
         | Some (Inr repos, io) \<Rightarrow>
             let io = console_log (''Found '' @ decimal (length repos) @ '' repositories'') io;
                 io = console_log ''Fetching commit data...'' io;
                 (allDates, io) = collect_dates env w repos [] io;
                 io = console_log ''Calculating statistics...'' io;
                 streaks = calculateStreaks today allDates;
                 yearlyStats = calculateYearlyStats allDates;
                 (languageStats, io) = getLanguageStats env w repos io
             in Some (Statistics \<lparr>streaks = streaks, yearlyStats = yearlyStats,
                                   languageStats = languageStats\<rparr>, io))"

section \<open>Vocabulary of the streak properties\<close>

text \<open>
  \<open>consecutive_run S d n\<close>: the \<open>n\<close> consecutive calendar days starting at \<open>d\<close> are all
  in \<open>S\<close>.
\<close>

definition consecutive_run :: "date set \<Rightarrow> date \<Rightarrow> nat \<Rightarrow> bool" where
  "consecutive_run S d n = (\<forall>k \<in> {0..<n}. d + int k \<in> S)"

text \<open>
  The invariant of the longest-streak loop after it has read the dates \<open>P\<close>, the
  smallest of them being \<open>prev\<close>: \<open>t\<close> is the length of the run that starts at
  \<open>prev\<close>, a run of length \<open>l\<close> has been closed, and no run within \<open>P\<close> is longer
  than both.
\<close>

definition streak_inv :: "date set \<Rightarrow> date \<Rightarrow> nat \<Rightarrow> nat \<Rightarrow> bool" where
  "streak_inv P prev t l \<longleftrightarrow>
     (\<forall>x\<in>P. prev \<le> x) \<and> 1 \<le> t \<and> consecutive_run P prev t \<and> prev + int t \<notin> P \<and>
     (\<exists>d. consecutive_run P d l) \<and> (\<forall>d n. consecutive_run P d n \<longrightarrow> n \<le> max l t)"

section \<open>Vocabulary of the yearly properties\<close>



section \<open>Vocabulary of the language properties\<close>

text \<open>
  The request of a repository's languages, the entries a repository contributes (those
  of its response with status 200, none otherwise), the table the loop ends with, its
  total, and the entries of the table with their percentages, in the table's order.
  \<open>tenths\<close> is the integer \<open>n\<close> that \<^verbatim>\<open>toFixed(1)\<close> prints for a language: ten times the
  percentage, rounded. \<open>percentage_number\<close> is what the last sort compares,
  \<open>percentage_value\<close> the decimal value of a percentage string.
\<close>

definition languages_request :: "env \<Rightarrow> repo \<Rightarrow> request" where
  "languages_request env r =
     \<lparr>hostname = ''api.github.com'',
      path = ''/repos/'' @ owner_login r @ ''/'' @ repo_name r @ ''/languages'',
      http_method = ''GET'',
      headers = [(''User-Agent'', ''GitHub-Stats-Generator''),
                 (''Authorization'', ''token '' @ template (GITHUB_TOKEN env)),
                 (''Accept'', ''application/vnd.github.v3+json'')]\<rparr>"

definition fetched_languages :: "env \<Rightarrow> world \<Rightarrow> repo \<Rightarrow> (string \<times> nat) list" where
  "fetched_languages env w r =
     (case repo_languages w (languages_request env r) of
        Response statusCode data parsed \<Rightarrow> if statusCode = 200 then parsed else []
      | Transport_error e \<Rightarrow> [])"

definition languages_of :: "env \<Rightarrow> world \<Rightarrow> repo list \<Rightarrow> io \<Rightarrow> languages" where
  "languages_of env w repos io = fst (aggregate_languages env w repos [] io)"

definition total_of :: "languages \<Rightarrow> nat" where
  "total_of languages = foldl (+) 0 (map snd languages)"

definition percent_entries :: "languages \<Rightarrow> lang_stat list" where
  "percent_entries languages =
     map (percentage_entry (total_of languages)) languages"

definition tenths :: "nat \<Rightarrow> nat \<Rightarrow> nat" where
  "tenths bytes total_bytes =
     nat \<lfloor>binary64 (binary64 (of_nat bytes / of_nat total_bytes) * 100) * 10 + 1 / 2\<rfloor>"

definition percentage_number :: "lang_stat \<Rightarrow> rat" where
  "percentage_number s = (case parseFloat (percentage s) of Num v \<Rightarrow> v | _ \<Rightarrow> 0)"

definition percentage_value :: "lang_stat \<Rightarrow> rat" where
  "percentage_value s = (case decimal_value (percentage s) of Some v \<Rightarrow> v | None \<Rightarrow> 0)"

section \<open>Vocabulary of the request properties\<close>

text \<open>
  The request that \<open>githubRequest\<close> issues for a path, and the three requests of the
  script. A result is rejected when it is a transport error or has a status other than
  200; \<open>rejection\<close> is the error the promise is rejected with. \<open>fetched_commits\<close> are
  the commits a repository contributes: those of its response with status 200, none
  otherwise.
\<close>

definition api_request :: "env \<Rightarrow> string \<Rightarrow> request" where
  "api_request env p =
     \<lparr>hostname = ''api.github.com'', path = p, http_method = ''GET'',
      headers = [(''User-Agent'', ''GitHub-Stats-Generator''),
                 (''Authorization'', ''token '' @ template (GITHUB_TOKEN env)),
                 (''Accept'', ''application/vnd.github.v3+json'')]\<rparr>"

definition repos_request :: "env \<Rightarrow> nat \<Rightarrow> request" where
  "repos_request env page =
     api_request env (''/user/repos?per_page=100&page='' @ decimal page @
                      ''&affiliation=owner,collaborator,organization_member'')"

definition commits_request :: "env \<Rightarrow> repo \<Rightarrow> request" where
  "commits_request env r =
     api_request env (''/repos/'' @ owner_login r @ ''/'' @ repo_name r @ ''/commits?author='' @
                      template (USERNAME env) @ ''&per_page=100'')"

definition rejected :: "'a http_result \<Rightarrow> bool" where
  "rejected r = (case r of Response statusCode data parsed \<Rightarrow> statusCode \<noteq> 200
                 | Transport_error e \<Rightarrow> True)"

definition rejection :: "'a http_result \<Rightarrow> js_error" where
  "rejection r = (case r of
       Response statusCode data parsed \<Rightarrow>
         Error (''GitHub API error: '' @ decimal statusCode @ '' - '' @ data)
     | Transport_error e \<Rightarrow> e)"

definition fetched_commits :: "env \<Rightarrow> world \<Rightarrow> repo \<Rightarrow> commit list" where
  "fetched_commits env w r =
     (case repo_commits w (commits_request env r) of
        Response statusCode data parsed \<Rightarrow> if statusCode = 200 then parsed else []
      | Transport_error e \<Rightarrow> [])"

text \<open>The bytes of a language in the table (\<open>0\<close> when it has no entry).\<close>

definition table_bytes :: "languages \<Rightarrow> string \<Rightarrow> nat" where
  "table_bytes languages lang = (case map_of languages lang of None \<Rightarrow> 0 | Some b \<Rightarrow> b)"

section \<open>Example runs\<close>

text \<open>Environments, repositories and answers of the API on which the script is run below.\<close>

definition demo_env :: env where
  "demo_env = \<lparr>GITHUB_TOKEN = Some ''t0ken'', USERNAME = Some ''octo''\<rparr>"

definition repo_of :: "string \<Rightarrow> repo" where
  "repo_of n = \<lparr>owner_login = ''octo'', repo_name = n, fork = False\<rparr>"

definition languages_world :: "(string \<Rightarrow> (string \<times> nat) list http_result) \<Rightarrow> world" where
  "languages_world answer =
     \<lparr>user_repos = (\<lambda>r. Response 200 [] []),
      repo_commits = (\<lambda>r. Response 200 [] []),
      repo_languages = (\<lambda>r. answer (path r))\<rparr>"

definition zero_world :: world where
  "zero_world = languages_world (\<lambda>p. Response 200 [] [(''HTML'', 0)])"

definition scss_world :: world where
  "scss_world = languages_world (\<lambda>p. Response 200 []
     [(''SCSS'', 50000), (''Open Policy Agent'', 300), (''scss'', 7)])"

definition unauthorized_world :: world where
  "unauthorized_world =
     \<lparr>user_repos = (\<lambda>r. Response 401 ''Bad credentials'' []),
      repo_commits = (\<lambda>r. Response 401 ''Bad credentials'' []),
      repo_languages = (\<lambda>r. Response 401 ''Bad credentials'' [])\<rparr>"

definition no_env :: env where
  "no_env = \<lparr>GITHUB_TOKEN = None, USERNAME = None\<rparr>"

definition three_world :: world where
  "three_world = languages_world (\<lambda>p. Response 200 [] [(''C'', 3), (''Go'', 2), (''Rust'', 2)])"

definition tie_world :: world where
  "tie_world = languages_world (\<lambda>p.
     if p = ''/repos/octo/first/languages'' then Response 200 [] [(''Shell'', 1)]
     else if p = ''/repos/octo/second/languages''
     then Response 200 [] [(''Python'', 1497), (''Makefile'', 2)]
     else Response 404 ''Not Found'' [])"

definition flaky_world :: world where
  "flaky_world =
     \<lparr>user_repos = (\<lambda>r. Response 200 [] [repo_of ''first'', repo_of ''second'']),
      repo_commits = (\<lambda>r. if path r = ''/repos/octo/first/commits?author=octo&per_page=100''
                           then Transport_error (Error ''socket hang up'')
                           else Response 200 [] [Commit (Some 100), Commit None]),
      repo_languages = (\<lambda>r. if path r = ''/repos/octo/first/languages''
                             then Response 500 ''Server Error'' []
                             else Response 200 [] [(''Shell'', 1)])\<rparr>"

section \<open>Properties of the JavaScript values\<close>

subsection \<open>Rounding to binary64\<close>

lemma round_half_even_bounds:
  "m - 1 / 2 \<le> of_int (round_half_even m) \<and> of_int (round_half_even m) \<le> m + 1 / 2"
proof -
  define f where "f = \<lfloor>m\<rfloor>"
  have 1: "of_int f \<le> m" and 2: "m < of_int f + 1" unfolding f_def by linarith+
  have r: "round_half_even m =
      (if m - of_int f < 1 / 2 then f else if 1 / 2 < m - of_int f then f + 1
       else if even f then f else f + 1)"
    by (simp add: round_half_even_def Let_def f_def)
  show ?thesis unfolding r using 1 2 by auto
qed

lemma pow2_split: "(2::rat) powi e = 2 powi (e - 52) * 2 ^ 52"
proof -
  have "(2::rat) powi (e - 52 + 52) = 2 powi (e - 52) * 2 powi 52"
    by (rule power_int_add) simp
  then show ?thesis by simp
qed

lemma binade_le:
  assumes "x \<noteq> 0"
  shows "2 powi binade x \<le> \<bar>x\<bar>"
proof -
  obtain a b where q: "quotient_of \<bar>x\<bar> = (a, b)" by (cases "quotient_of \<bar>x\<bar>")
  then have x: "\<bar>x\<bar> = of_int a / of_int b" and b: "0 < b"
    by (auto dest: quotient_of_div quotient_of_denom_pos)
  from assms have "0 < \<bar>x\<bar>" by simp
  with x b have a: "0 < a" by (simp add: zero_less_divide_iff)
  let ?e = "bitlen a - bitlen b"
  show ?thesis
  proof (cases "2 powi ?e \<le> \<bar>x\<bar>")
    case True
    with q show ?thesis by (simp add: binade_def)
  next
    case False
    with q have e: "binade x = ?e - 1" by (simp add: binade_def)
    from a have la: "0 \<le> bitlen a - 1" by (simp add: bitlen_alt_def)
    from bitlen_bounds[OF a] have "(2::int) ^ nat (bitlen a - 1) \<le> a" by simp
    then have "(of_int ((2::int) ^ nat (bitlen a - 1)) :: rat) \<le> of_int a"
      by (simp only: of_int_le_iff)
    then have na: "(2::rat) ^ nat (bitlen a - 1) \<le> of_int a" by simp
    from bitlen_bounds[OF b] have "b < (2::int) ^ nat (bitlen b)" by simp
    then have "(of_int b :: rat) < of_int ((2::int) ^ nat (bitlen b))"
      by (simp only: of_int_less_iff)
    then have nb: "(of_int b :: rat) \<le> 2 ^ nat (bitlen b)" by simp
    have pd: "(2::rat) powi ((bitlen a - 1) - bitlen b) = 2 powi (bitlen a - 1) / 2 powi (bitlen b)"
      by (rule power_int_diff) simp
    have "?e - 1 = (bitlen a - 1) - bitlen b" by simp
    with pd have "(2::rat) powi (?e - 1) = 2 powi (bitlen a - 1) / 2 powi (bitlen b)"
      by (simp only:)
    also have "\<dots> = 2 ^ nat (bitlen a - 1) / 2 ^ nat (bitlen b)"
      using la bitlen_nonneg[of b] by (simp add: power_int_def)
    also have "\<dots> \<le> of_int a / of_int b"
      using na nb a b by (intro frac_le) auto
    finally show ?thesis by (simp only: e x)
  qed
qed

lemma binary64_scaled:
  assumes "0 < x"
  shows "2 ^ 52 \<le> x / 2 powi (binade x - 52)"
proof -
  let ?u = "(2::rat) powi (binade x - 52)"
  have u: "0 < ?u" by (rule zero_less_power_int) simp
  from assms have "x \<noteq> 0" by simp
  from binade_le[OF this] assms have "2 powi binade x \<le> x" by simp
  then have "?u * 2 ^ 52 \<le> x" by (simp only: pow2_split[symmetric])
  then have "2 ^ 52 * ?u \<le> x" by (simp only: mult.commute)
  with u show ?thesis by (simp only: pos_le_divide_eq)
qed

lemma binary64_minus: "binary64 (- x) = - binary64 x"
  by (simp add: binary64_def binade_def Let_def)

lemma binary64_pos:
  assumes "0 < x"
  shows "0 < binary64 x"
proof -
  let ?u = "(2::rat) powi (binade x - 52)"
  have u: "0 < ?u" by (rule zero_less_power_int) simp
  have "(1::rat) \<le> 2 ^ 52" by simp
  from this binary64_scaled[OF assms] have "1 \<le> x / ?u" by (rule order_trans)
  with round_half_even_bounds[of "x / ?u"] have "(0::rat) < of_int (round_half_even (x / ?u))"
    by linarith
  from this u have "0 < of_int (round_half_even (x / ?u)) * ?u" by (rule mult_pos_pos)
  with assms show ?thesis by (simp add: binary64_def Let_def)
qed

lemma binary64_pos_iff: "0 < binary64 x \<longleftrightarrow> 0 < x"
proof (cases "0 < x")
  case True
  with binary64_pos show ?thesis by simp
next
  case False
  have "binary64 x \<le> 0"
  proof (cases "x = 0")
    case True
    then show ?thesis by (simp add: binary64_def)
  next
    case nz: False
    with False have "0 < - x" by simp
    from binary64_pos[OF this] show ?thesis by (simp add: binary64_minus)
  qed
  with False show ?thesis by simp
qed

lemma binary64_upper:
  assumes "0 \<le> x"
  shows "binary64 x \<le> x * (1 + 1 / 2 ^ 53)"
proof (cases "x = 0")
  case True
  then show ?thesis by (simp add: binary64_def)
next
  case False
  with assms have pos: "0 < x" by simp
  define u where "u = (2::rat) powi (binade x - 52)"
  define r where "r = (of_int (round_half_even (x / u)) :: rat)"
  have u: "0 < u" unfolding u_def by (rule zero_less_power_int) simp
  from binary64_scaled[OF pos] have "2 ^ 52 \<le> x / u" by (simp only: u_def)
  with u have "2 ^ 52 * u \<le> x" by (simp only: pos_le_divide_eq)
  then have ulp: "u \<le> x / 2 ^ 52" by (simp add: pos_le_divide_eq mult.commute)
  have b: "binary64 x = r * u"
    using pos by (simp add: binary64_def Let_def u_def r_def)
  have "r \<le> x / u + 1 / 2" unfolding r_def using round_half_even_bounds[of "x / u"] by simp
  with u have "r * u \<le> (x / u + 1 / 2) * u" by (simp only: mult_le_cancel_right_pos)
  also have "\<dots> = x + u / 2" using u by (simp add: distrib_right)
  also have "\<dots> \<le> x + (x / 2 ^ 52) / 2" using ulp by simp
  also have "\<dots> = x * (1 + 1 / 2 ^ 53)" by (simp add: distrib_left)
  finally show ?thesis by (simp only: b)
qed

lemma js_pos_sub:
  "js_pos (js_sub (Num a) (Num b)) \<longleftrightarrow> b < a"
  by (simp add: binary64_pos_iff)

subsection \<open>Sorting and deduplication\<close>

lemma set_Set_add: "set (Set_add seen x) = insert x (set seen)"
  by (auto simp: Set_add_def)

lemma distinct_Set_add: "distinct seen \<Longrightarrow> distinct (Set_add seen x)"
  by (simp add: Set_add_def)

lemma set_Set_of: "set (Set_of seen xs) = set seen \<union> set xs"
  by (induction xs arbitrary: seen) (auto simp: set_Set_add)

lemma distinct_Set_of: "distinct seen \<Longrightarrow> distinct (Set_of seen xs)"
  by (induction xs arbitrary: seen) (auto simp: distinct_Set_add)

lemma insort_cmp_key:
  assumes "\<And>x y. js_pos (cmp x y) \<longleftrightarrow> f y < f x"
  shows "insort_cmp cmp x ys = insort_key f x ys"
  by (induction ys) (auto simp: assms)

lemma sort_cmp_key:
  assumes "\<And>x y. js_pos (cmp x y) \<longleftrightarrow> f y < f x"
  shows "sort_cmp cmp xs = sort_key f xs"
  by (induction xs) (simp_all add: sort_cmp_def insort_cmp_key[OF assms])

lemma sortedDates_eq:
  "sort_cmp (\<lambda>a b. js_sub (Date b) (Date a)) xs = sort_key uminus xs"
  by (rule sort_cmp_key) (simp add: Date_def Date_ms_def num_of_int_def binary64_pos_iff)

section \<open>Properties of calculateStreaks\<close>

declare current_loop.simps [simp del] longest_loop.simps [simp del]


lemma consecutive_run_mono: "consecutive_run P d n \<Longrightarrow> P \<subseteq> Q \<Longrightarrow> consecutive_run Q d n"
  by (auto simp: consecutive_run_def)

lemma consecutive_run_start: "consecutive_run P d n \<Longrightarrow> 0 < n \<Longrightarrow> d \<in> P"
  by (force simp: consecutive_run_def)

lemma consecutive_run_above:
  assumes "consecutive_run (insert c P) d n" "c < d"
  shows "consecutive_run P d n"
  using assms by (fastforce simp: consecutive_run_def)

lemma consecutive_run_tail:
  assumes "consecutive_run (insert c P) c (Suc n)"
  shows "consecutive_run P (c + 1) n"
  unfolding consecutive_run_def
proof
  fix k assume "k \<in> {0..<n}"
  then have "Suc k \<in> {0..<Suc n}" by simp
  with assms have "c + int (Suc k) \<in> insert c P" unfolding consecutive_run_def by blast
  then show "c + 1 + int k \<in> P" by (simp add: algebra_simps)
qed

lemma consecutive_run_bound:
  assumes "consecutive_run P d n" "d + int t \<notin> P"
  shows "n \<le> t"
proof (rule ccontr)
  assume "\<not> n \<le> t"
  then have "t \<in> {0..<n}" by simp
  with assms show False unfolding consecutive_run_def by blast
qed

lemma streak_inv_init: "streak_inv {x} x 1 0"
proof -
  have "n \<le> 1" if "consecutive_run {x} d n" for d n
  proof (rule ccontr)
    assume "\<not> n \<le> 1"
    then have "0 \<in> {0..<n}" "1 \<in> {0..<n}" by auto
    with that have "d + int 0 \<in> {x}" "d + int 1 \<in> {x}" unfolding consecutive_run_def by blast+
    then show False by simp
  qed
  then show ?thesis by (auto simp: streak_inv_def consecutive_run_def)
qed

lemma streak_inv_extend:
  assumes inv: "streak_inv P prev t l" and c: "cday = prev - 1"
  shows "streak_inv (insert cday P) cday (t + 1) l"
proof -
  from inv have low: "\<forall>x\<in>P. prev \<le> x" and run: "consecutive_run P prev t"
    and stop: "prev + int t \<notin> P" and ex: "\<exists>d. consecutive_run P d l"
    and ub: "\<forall>d n. consecutive_run P d n \<longrightarrow> n \<le> max l t"
    by (auto simp: streak_inv_def)
  have 1: "\<forall>x\<in>insert cday P. cday \<le> x" using low c by auto
  have 2: "consecutive_run (insert cday P) cday (t + 1)"
    unfolding consecutive_run_def
  proof
    fix k assume k: "k \<in> {0..<t + 1}"
    show "cday + int k \<in> insert cday P"
    proof (cases k)
      case 0 then show ?thesis by simp
    next
      case (Suc j)
      with k have "j \<in> {0..<t}" by simp
      with run have "prev + int j \<in> P" unfolding consecutive_run_def by blast
      moreover have "cday + int k = prev + int j" using Suc c by simp
      ultimately show ?thesis by simp
    qed
  qed
  have 3: "cday + int (t + 1) \<notin> insert cday P" using stop unfolding c by simp
  from ex have 4: "\<exists>d. consecutive_run (insert cday P) d l"
    by (blast intro: consecutive_run_mono)
  have 5: "n \<le> max l (t + 1)" if r: "consecutive_run (insert cday P) d n" for d n
  proof (cases n)
    case 0 then show ?thesis by simp
  next
    case (Suc m)
    from consecutive_run_start[OF r] Suc have "d \<in> insert cday P" by simp
    with 1 have "cday \<le> d" by blast
    show ?thesis
    proof (cases "d = cday")
      case True
      with r Suc have "consecutive_run P (cday + 1) m" by (auto intro: consecutive_run_tail)
      with c have "consecutive_run P prev m" by simp
      from consecutive_run_bound[OF this stop] have "m \<le> t" .
      with Suc show ?thesis by simp
    next
      case False
      with \<open>cday \<le> d\<close> have "cday < d" by simp
      from consecutive_run_above[OF r this] have "consecutive_run P d n" .
      with ub have "n \<le> max l t" by blast
      then show ?thesis by simp
    qed
  qed
  from 1 2 3 4 5 show ?thesis unfolding streak_inv_def by simp
qed

lemma streak_inv_restart:
  assumes inv: "streak_inv P prev t l" and c: "cday < prev - 1"
  shows "streak_inv (insert cday P) cday 1 (max l t)"
proof -
  from inv have low: "\<forall>x\<in>P. prev \<le> x" and run: "consecutive_run P prev t"
    and ex: "\<exists>d. consecutive_run P d l"
    and ub: "\<forall>d n. consecutive_run P d n \<longrightarrow> n \<le> max l t"
    by (auto simp: streak_inv_def)
  have 1: "\<forall>x\<in>insert cday P. cday \<le> x" using low c by auto
  have 2: "consecutive_run (insert cday P) cday 1" by (simp add: consecutive_run_def)
  have 3: "cday + int 1 \<notin> insert cday P" using low c by auto
  have "\<exists>d. consecutive_run P d (max l t)"
    using ex run by (cases "l \<le> t") (auto simp: max_def)
  then have 4: "\<exists>d. consecutive_run (insert cday P) d (max l t)"
    by (blast intro: consecutive_run_mono)
  have 5: "n \<le> max (max l t) 1" if r: "consecutive_run (insert cday P) d n" for d n
  proof (cases n)
    case 0 then show ?thesis by simp
  next
    case (Suc m)
    from consecutive_run_start[OF r] Suc have "d \<in> insert cday P" by simp
    with 1 have "cday \<le> d" by blast
    show ?thesis
    proof (cases "d = cday")
      case True
      with r 3 have "n \<le> 1" by (auto intro: consecutive_run_bound)
      then show ?thesis by simp
    next
      case False
      with \<open>cday \<le> d\<close> have "cday < d" by simp
      from consecutive_run_above[OF r this] have "consecutive_run P d n" .
      with ub have "n \<le> max l t" by blast
      then show ?thesis by simp
    qed
  qed
  from 1 2 3 4 5 show ?thesis unfolding streak_inv_def by simp
qed

lemma longest_loop_spec:
  assumes "sorted_wrt (>) sd" "0 < i" "i \<le> length sd"
    "streak_inv (set (take i sd)) (sd ! (i - 1)) t l"
  shows "case longest_loop sd i (t, l) of (t', l') \<Rightarrow>
           (\<exists>d. consecutive_run (set sd) d (max l' t')) \<and>
           (\<forall>d n. consecutive_run (set sd) d n \<longrightarrow> n \<le> max l' t')"
  using assms
proof (induction sd i "(t, l)" arbitrary: t l rule: longest_loop.induct)
  case (1 sd i t l)
  show ?case
  proof (cases "i < length sd")
    case False
    with "1.prems" have full: "take i sd = sd" by simp
    from "1.prems"(4) have "streak_inv (set sd) (sd ! (i - 1)) t l" by (simp add: full)
    then have "(\<exists>d. consecutive_run (set sd) d (max l t)) \<and>
               (\<forall>d n. consecutive_run (set sd) d n \<longrightarrow> n \<le> max l t)"
      unfolding streak_inv_def by (cases "l \<le> t") (auto simp: max_def)
    with False show ?thesis by (subst longest_loop.simps) simp
  next
    case True
    from "1.prems" have ipos: "i \<noteq> 0" by simp
    let ?prev = "sd ! (i - 1)" and ?cday = "sd ! i"
    have tk: "set (take (Suc i) sd) = insert ?cday (set (take i sd))"
      using True by (simp add: take_Suc_conv_app_nth)
    have lt: "?cday < ?prev"
      using sorted_wrt_nth_less[OF "1.prems"(1), of "i - 1" i] True ipos by simp
    have dd: "(Date_ms ?prev - Date_ms ?cday) div (1000 * 60 * 60 * 24) = ?prev - ?cday"
      by (simp add: Date_ms_def algebra_simps flip: right_diff_distrib)
    show ?thesis
    proof (cases "?prev - ?cday = 1")
      case one: True
      then have "?cday = ?prev - 1" by simp
      from streak_inv_extend[OF "1.prems"(4) this]
      have inv': "streak_inv (set (take (i + 1) sd)) (sd ! (i + 1 - 1)) (t + 1) l"
        by (simp add: tk)
      have "case longest_loop sd (i + 1) (t + 1, l) of (t', l') \<Rightarrow>
           (\<exists>d. consecutive_run (set sd) d (max l' t')) \<and>
           (\<forall>d n. consecutive_run (set sd) d n \<longrightarrow> n \<le> max l' t')"
        using True ipos one dd "1.prems"(1) inv'
        by (intro "1.hyps"(2)) (auto simp: Let_def)
      with True ipos one dd show ?thesis
        by (subst longest_loop.simps) (simp add: Let_def)
    next
      case other: False
      with lt have "?cday < ?prev - 1" by simp
      from streak_inv_restart[OF "1.prems"(4) this]
      have inv': "streak_inv (set (take (i + 1) sd)) (sd ! (i + 1 - 1)) 1 (max l t)"
        by (simp add: tk)
      have "case longest_loop sd (i + 1) (1, max l t) of (t', l') \<Rightarrow>
           (\<exists>d. consecutive_run (set sd) d (max l' t')) \<and>
           (\<forall>d n. consecutive_run (set sd) d n \<longrightarrow> n \<le> max l' t')"
        using True ipos other dd "1.prems"(1) inv'
        by (intro "1.hyps"(3)) (auto simp: Let_def)
      with True ipos other dd show ?thesis
        by (subst longest_loop.simps) (simp add: Let_def)
    qed
  qed
qed

subsection \<open>The streak summary\<close>

lemma sorted_wrt_sortedDates:
  "sorted_wrt (>) (sort_key uminus (Set_of [] (dates :: date list)))"
proof -
  have "sorted (map uminus xs) \<Longrightarrow> distinct xs \<Longrightarrow> sorted_wrt (>) xs" for xs :: "date list"
    by (induction xs) (auto simp: le_less)
  moreover have "sorted (map uminus (sort_key uminus (Set_of [] dates)))" by simp
  moreover have "distinct (sort_key uminus (Set_of [] dates))"
    by (simp add: distinct_Set_of)
  ultimately show ?thesis by blast
qed

lemma set_sortedDates: "set (sort_key uminus (Set_of [] dates)) = set dates"
  by (simp add: set_Set_of)





text \<open>
  Claim C2. The longest streak is the length of the longest run of consecutive calendar
  days that are all in the date set: some run of that length lies in the set, and no
  run in the set is longer. (For the empty list both sides are \<open>0\<close>.)
\<close>

theorem longest_streak_is_longest_run:
  "(\<exists>d. consecutive_run (set dates) d (longest (calculateStreaks today dates))) \<and>
   (\<forall>d n. consecutive_run (set dates) d n \<longrightarrow> n \<le> longest (calculateStreaks today dates))"
proof (cases "dates = []")
  case True
  have "n = 0" if "consecutive_run {} d n" for d n
    using that by (cases n) (auto simp: consecutive_run_def)
  with True show ?thesis by (auto simp: calculateStreaks_def consecutive_run_def)
next
  case False
  let ?sd = "sort_key uminus (Set_of [] dates)"
  have "set (Set_of [] dates) \<noteq> {}" using False by (simp add: set_Set_of)
  then have len: "0 < length ?sd" by simp
  from len[unfolded length_greater_0_conv] have ne: "?sd \<noteq> []" .
  have "xs \<noteq> [] \<Longrightarrow> set (take 1 xs) = {xs ! 0}" for xs :: "date list"
    by (cases xs) auto
  from this[OF ne] have tk: "set (take 1 ?sd) = {?sd ! 0}" .
  have start: "longest_loop ?sd 0 (0, 0) = longest_loop ?sd 1 (1, 0)"
    using len by (subst longest_loop.simps) simp
  have inv: "streak_inv (set (take 1 ?sd)) (?sd ! (1 - 1)) 1 0"
    by (simp only: tk diff_self_eq_0 streak_inv_init)
  have "case longest_loop ?sd 1 (1, 0) of (t', l') \<Rightarrow>
           (\<exists>d. consecutive_run (set ?sd) d (max l' t')) \<and>
           (\<forall>d n. consecutive_run (set ?sd) d n \<longrightarrow> n \<le> max l' t')"
    using len by (intro longest_loop_spec sorted_wrt_sortedDates inv) (simp_all add: Suc_le_eq)
  moreover have "longest (calculateStreaks today dates) =
      (case longest_loop ?sd 0 (0, 0) of (t', l') \<Rightarrow> max l' t')"
    using False unfolding calculateStreaks_def sortedDates_eq
    by (simp add: Let_def split: prod.splits)
  ultimately show ?thesis
    by (simp add: start set_Set_of split: prod.splits)
qed

theorem longest_streak_is_longest_run_witness:
  "consecutive_run (set [100, 98, 97, 96, 96]) 96 3 \<and>
   3 \<le> longest (calculateStreaks 100 [100, 98, 97, 96, 96])"
proof -
  have run: "consecutive_run (set [100, 98, 97, 96, 96]) 96 3" by code_simp
  from longest_streak_is_longest_run[of "[100, 98, 97, 96, 96]" 100] run show ?thesis
    by blast
qed

text \<open>
  Claim C3. For the empty list of dates, \<open>calculateStreaks\<close> returns exactly
  \<open>{current: 0, longest: 0, total: 0}\<close>, whatever the day is.
\<close>

theorem calculateStreaks_empty:
  "calculateStreaks today [] = \<lparr>current = 0, longest = 0, total = 0\<rparr>"
  by (simp add: calculateStreaks_def)

section \<open>Properties of calculateYearlyStats\<close>












section \<open>Properties of getLanguageStats\<close>

lemma percent_entries_alt:
  "percent_entries languages =
     map (\<lambda>(n, b). \<lparr>name = n, percentage = percent b (total_of languages)\<rparr>) languages"
  by (simp add: percent_entries_def case_prod_unfold)
     (metis percentage_entry.simps prod.collapse)

lemma set_insort_cmp: "set (insort_cmp cmp x ys) = insert x (set ys)"
  by (induction ys) auto

lemma set_sort_cmp: "set (sort_cmp cmp xs) = set xs"
  by (induction xs) (simp_all add: sort_cmp_def set_insort_cmp)

lemma length_insort_cmp: "length (insort_cmp cmp x ys) = Suc (length ys)"
  by (induction ys) auto

lemma length_sort_cmp: "length (sort_cmp cmp xs) = length xs"
  by (induction xs) (simp_all add: sort_cmp_def length_insort_cmp)

lemma fst_githubRequest_languages:
  "fst (githubRequest env (repo_languages w)
          (''/repos/'' @ owner_login r @ ''/'' @ repo_name r @ ''/languages'') io) =
   (case repo_languages w (languages_request env r) of
        Response statusCode data parsed \<Rightarrow>
          if statusCode = 200 then Inr parsed
          else Inl (Error (''GitHub API error: '' @ decimal statusCode @ '' - '' @ data))
      | Transport_error e \<Rightarrow> Inl e)"
  by (simp add: githubRequest_def languages_request_def Let_def split: http_result.splits)

lemma aggregate_languages_fetched:
  "fst (aggregate_languages env w repos languages io) =
   foldl add_language languages (concat (map (fetched_languages env w) repos))"
proof (induction repos arbitrary: languages io)
  case Nil
  then show ?case by simp
next
  case (Cons r repos)
  show ?case
  proof (cases "githubRequest env (repo_languages w)
          (''/repos/'' @ owner_login r @ ''/'' @ repo_name r @ ''/languages'') io")
    case (Pair res io')
    with fst_githubRequest_languages[of env w r io]
    have res: "res = (case repo_languages w (languages_request env r) of
        Response statusCode data parsed \<Rightarrow>
          if statusCode = 200 then Inr parsed
          else Inl (Error (''GitHub API error: '' @ decimal statusCode @ '' - '' @ data))
      | Transport_error e \<Rightarrow> Inl e)" by simp
    show ?thesis
    proof (cases res)
      case (Inl e)
      with res have "fetched_languages env w r = []"
        by (auto simp: fetched_languages_def split: http_result.splits if_splits)
      with Pair Inl Cons.IH show ?thesis by simp
    next
      case (Inr langs)
      with res have "fetched_languages env w r = langs"
        by (auto simp: fetched_languages_def split: http_result.splits if_splits)
      with Pair Inr Cons.IH show ?thesis by (simp add: Let_def)
    qed
  qed
qed

lemma add_language_keys:
  "map fst (add_language languages e) =
   (if fst e \<in> set excludedLanguages then map fst languages else Set_add (map fst languages) (fst e))"
  by (cases e) (simp add: update_keys Set_add_def)

lemma foldl_add_language_keys:
  "map fst (foldl add_language languages es) =
   Set_of (map fst languages) (filter (\<lambda>l. l \<notin> set excludedLanguages) (map fst es))"
  by (induction es arbitrary: languages) (simp_all add: add_language_keys)

lemma languages_of_keys:
  "map fst (languages_of env w repos io) =
   Set_of [] (filter (\<lambda>l. l \<notin> set excludedLanguages)
                (map fst (concat (map (fetched_languages env w) repos))))"
  by (simp add: languages_of_def aggregate_languages_fetched foldl_add_language_keys)

lemma getLanguageStats_fst:
  "fst (getLanguageStats env w repos io) =
   take 10 (sort_cmp by_percentage
              (percent_entries (languages_of env w repos io)))"
  by (simp add: getLanguageStats_def languages_of_def percent_entries_def total_of_def Let_def
        split: prod.splits)

lemma name_percent_entries: "map name (percent_entries languages) = map fst languages"
  by (simp add: percent_entries_alt case_prod_unfold comp_def)

lemma names_getLanguageStats:
  "name ` set (fst (getLanguageStats env w repos io)) \<subseteq> fst ` set (languages_of env w repos io)"
proof -
  have "set (fst (getLanguageStats env w repos io)) \<subseteq> set (percent_entries (languages_of env w repos io))"
    unfolding getLanguageStats_fst
    by (rule order_trans[OF set_take_subset]) (simp add: set_sort_cmp)
  then have "name ` set (fst (getLanguageStats env w repos io)) \<subseteq>
      set (map name (percent_entries (languages_of env w repos io)))" by auto
  then show ?thesis by (simp add: name_percent_entries)
qed

declare decimal.simps [simp del]

lemma digit_char_cases:
  assumes "d < 10"
  shows "digit_char d \<in> set ''0123456789'' \<and> of_char (digit_char d) - 48 = d \<and>
         digit_char d \<noteq> CHR ''.'' \<and> digit_char d \<noteq> CHR ''-'' \<and> digit_char d \<noteq> CHR ''I''"
proof -
  from assms have "d = 0 \<or> d = 1 \<or> d = 2 \<or> d = 3 \<or> d = 4 \<or> d = 5 \<or>
      d = 6 \<or> d = 7 \<or> d = 8 \<or> d = 9" by presburger
  then show ?thesis by (elim disjE) (simp_all add: digit_char_def)
qed

lemma is_digit_digit_char: "d < 10 \<Longrightarrow> is_digit (digit_char d)"
  using digit_char_cases[of d] by (simp add: is_digit_def)

lemma decimal_digits: "\<forall>c \<in> set (decimal n). is_digit c"
proof (induction n rule: decimal.induct)
  case (1 n)
  show ?case
  proof (cases "n < 10")
    case True
    then show ?thesis by (subst decimal.simps) (simp add: is_digit_digit_char)
  next
    case False
    with 1 show ?thesis by (subst decimal.simps) (simp add: is_digit_digit_char)
  qed
qed

lemma decimal_nonempty: "decimal n \<noteq> []"
  by (subst decimal.simps) simp

lemma digits_value_snoc:
  "digits_value (ds @ [c]) = 10 * digits_value ds + (of_char c - 48)"
  by (simp add: digits_value_def)

lemma digits_value_decimal: "digits_value (decimal n) = n"
proof (induction n rule: decimal.induct)
  case (1 n)
  show ?case
  proof (cases "n < 10")
    case True
    with digit_char_cases[of n] show ?thesis
      by (subst decimal.simps) (simp add: digits_value_def)
  next
    case False
    with 1 digit_char_cases[of "n mod 10"] show ?thesis
      by (subst decimal.simps) (simp add: digits_value_snoc)
  qed
qed

lemma toFixed_1:
  assumes "0 \<le> x"
  shows "toFixed 1 (Num x) =
     decimal (nat \<lfloor>x * 10 + 1 / 2\<rfloor> div 10) @ ''.'' @ [digit_char (nat \<lfloor>x * 10 + 1 / 2\<rfloor> mod 10)]"
proof -
  define n where "n = nat \<lfloor>x * 10 + 1 / 2\<rfloor>"
  have t: "toFixed 1 (Num x) =
      (let m = padStart 2 (CHR ''0'') (decimal n); k = length m
       in take (k - 1) m @ ''.'' @ drop (k - 1) m)"
    using assms by (simp add: n_def Let_def numeral_2_eq_2)
  show ?thesis
  proof (cases "n < 10")
    case True
    then have "decimal n = [digit_char n]" by (subst decimal.simps) simp
    moreover from True have "decimal (n div 10) = ''0''"
      by (subst decimal.simps) (simp add: digit_char_def)
    ultimately show ?thesis using True unfolding t n_def[symmetric]
      by (simp add: padStart_def Let_def)
  next
    case False
    then have d: "decimal n = decimal (n div 10) @ [digit_char (n mod 10)]"
      by (subst decimal.simps) simp
    have "1 \<le> length (decimal (n div 10))"
      using decimal_nonempty[of "n div 10"] by (cases "decimal (n div 10)") auto
    then show ?thesis unfolding t n_def[symmetric] d
      by (simp add: padStart_def Let_def)
  qed
qed

lemma decimal_value_fixed1:
  assumes "d < 10"
  shows "decimal_value (decimal a @ ''.'' @ [digit_char d]) = Some (of_nat (10 * a + d) / 10)"
proof -
  have dot: "\<not> is_digit CHR ''.''" by (simp add: is_digit_def)
  have tw: "takeWhile is_digit (decimal a @ ''.'' @ [digit_char d]) = decimal a"
    using decimal_digits[of a] dot by (simp add: takeWhile_append2)
  have dw: "dropWhile is_digit (decimal a @ ''.'' @ [digit_char d]) = ''.'' @ [digit_char d]"
    using decimal_digits[of a] dot by (simp add: dropWhile_append2)
  have fp: "takeWhile is_digit [digit_char d] = [digit_char d]"
    using is_digit_digit_char[OF assms] by simp
  have v: "digits_value [digit_char d] = d"
    using digit_char_cases[OF assms] by (simp add: digits_value_def)
  show ?thesis
    unfolding decimal_value_def tw dw
    using decimal_nonempty[of a] is_digit_digit_char[OF assms]
    by (simp add: v digits_value_decimal Let_def field_simps)
qed

lemma parseFloat_fixed1:
  assumes "d < 10"
  shows "parseFloat (decimal a @ ''.'' @ [digit_char d]) = Num (binary64 (of_nat (10 * a + d) / 10))"
proof -
  obtain c cs where dc: "decimal a = c # cs"
    using decimal_nonempty[of a] by (cases "decimal a") auto
  with decimal_digits[of a] have "is_digit c" by simp
  then have c: "c \<noteq> CHR ''-''" "c \<noteq> CHR ''I''" by (auto simp: is_digit_def)
  have 1: "take 1 (decimal a @ ''.'' @ [digit_char d]) \<noteq> ''-''" using c by (simp add: dc)
  have 2: "take 8 (decimal a @ ''.'' @ [digit_char d]) \<noteq> ''Infinity''" using c by (simp add: dc)
  show ?thesis
    unfolding parseFloat_def using 1 2 decimal_value_fixed1[OF assms, of a]
    by (simp add: Let_def)
qed

lemma binary64_nonneg: "0 \<le> x \<Longrightarrow> 0 \<le> binary64 x"
  using binary64_pos[of x] by (cases "x = 0") (auto simp: binary64_def)

lemma percent_pos:
  assumes "0 < T"
  shows "percent b T = decimal (tenths b T div 10) @ ''.'' @ [digit_char (tenths b T mod 10)]"
proof -
  let ?x = "binary64 (binary64 (of_nat b / of_nat T) * 100)"
  have "0 \<le> ?x" by (intro binary64_nonneg mult_nonneg_nonneg) auto
  from toFixed_1[OF this] assms show ?thesis
    by (simp add: percent_def num_of_nat_def tenths_def)
qed

lemma percent_zero: "percent 0 0 = ''NaN''"
  by (simp add: percent_def num_of_nat_def)

lemma parseFloat_NaN: "parseFloat ''NaN'' = NaN"
  by (simp add: parseFloat_def decimal_value_def is_digit_def)

lemma parseFloat_percent:
  assumes "0 < T"
  shows "parseFloat (percent b T) = Num (binary64 (of_nat (tenths b T) / 10))"
proof -
  have "tenths b T mod 10 < 10" by simp
  from parseFloat_fixed1[OF this, of "tenths b T div 10"] show ?thesis
    by (simp add: percent_pos[OF assms])
qed

lemma foldl_add_sum_list: "foldl (+) a xs = a + sum_list xs" for a :: nat
  by (induction xs arbitrary: a) simp_all

lemma total_of_sum_list: "total_of languages = sum_list (map snd languages)"
  by (simp add: total_of_def foldl_add_sum_list)

lemma bytes_le_total: "(l, b) \<in> set languages \<Longrightarrow> b \<le> total_of languages"
proof -
  assume "(l, b) \<in> set languages"
  then have "b \<in> set (map snd languages)" by force
  then have "b \<le> sum_list (map snd languages)" by (rule member_le_sum_list) simp
  then show ?thesis by (simp only: total_of_sum_list)
qed

lemma percent_entries_total_zero:
  assumes "total_of languages = 0" "s \<in> set (percent_entries languages)"
  shows "percentage s = ''NaN''"
proof -
  from assms(2) obtain l b where lb: "(l, b) \<in> set languages"
    and s: "s = \<lparr>name = l, percentage = percent b (total_of languages)\<rparr>"
    by (auto simp: percent_entries_alt)
  from bytes_le_total[OF lb] assms(1) have "b = 0" by simp
  with s assms(1) show ?thesis by (simp add: percent_zero)
qed

lemma percent_entries_total_pos:
  assumes "0 < total_of languages" "s \<in> set (percent_entries languages)"
  shows "\<exists>l b. (l, b) \<in> set languages \<and> name s = l \<and>
           percentage s = percent b (total_of languages) \<and>
           parseFloat (percentage s) =
             Num (binary64 (of_nat (tenths b (total_of languages)) / 10))"
proof -
  from assms(2) obtain l b where lb: "(l, b) \<in> set languages"
    and s: "s = \<lparr>name = l, percentage = percent b (total_of languages)\<rparr>"
    by (auto simp: percent_entries_alt)
  with parseFloat_percent[OF assms(1), of b] show ?thesis by auto
qed

lemma insort_cmp_key_on:
  assumes "\<And>y. y \<in> set ys \<Longrightarrow> js_pos (cmp x y) \<longleftrightarrow> f y < f x"
  shows "insort_cmp cmp x ys = insort_key f x ys"
  using assms by (induction ys) auto

lemma sort_cmp_key_on:
  assumes "\<And>x y. x \<in> set xs \<Longrightarrow> y \<in> set xs \<Longrightarrow> js_pos (cmp x y) \<longleftrightarrow> f y < f x"
  shows "sort_cmp cmp xs = sort_key f xs"
  using assms
proof (induction xs)
  case Nil
  then show ?case by (simp add: sort_cmp_def)
next
  case (Cons x xs)
  then have IH: "sort_cmp cmp xs = sort_key f xs" by simp
  have "insort_cmp cmp x (sort_key f xs) = insort_key f x (sort_key f xs)"
    by (rule insort_cmp_key_on) (simp add: Cons.prems)
  with IH show ?case by (simp add: sort_cmp_def)
qed

lemma percent_cmp_key:
  assumes x: "x \<in> set (percent_entries languages)" and y: "y \<in> set (percent_entries languages)"
  shows "js_pos (js_sub (parseFloat (percentage y)) (parseFloat (percentage x))) \<longleftrightarrow>
         - percentage_number y < - percentage_number x"
proof (cases "total_of languages = 0")
  case True
  from percent_entries_total_zero[OF True x] percent_entries_total_zero[OF True y]
  show ?thesis by (simp add: parseFloat_NaN percentage_number_def)
next
  case False
  then have pos: "0 < total_of languages" by simp
  from percent_entries_total_pos[OF pos x] percent_entries_total_pos[OF pos y]
  show ?thesis by (auto simp: percentage_number_def binary64_pos_iff)
qed

lemma getLanguageStats_sorted_key:
  "fst (getLanguageStats env w repos io) =
   take 10 (sort_key (\<lambda>s. - percentage_number s) (percent_entries (languages_of env w repos io)))"
  unfolding getLanguageStats_fst
  by (subst sort_cmp_key_on[where f = "\<lambda>s. - percentage_number s"])
     (simp_all add: percent_cmp_key by_percentage_def)

lemma tenths_upper:
  "of_nat (tenths b T) \<le> 1000 * (1 + 1 / 2 ^ 53)\<^sup>2 * (of_nat b / of_nat T) + (1 / 2 :: rat)"
proof -
  define u where "u = (1 + 1 / 2 ^ 53 :: rat)"
  define q where "q = (of_nat b / of_nat T :: rat)"
  have u: "0 \<le> u" by (simp add: u_def)
  have q: "0 \<le> q" by (simp add: q_def)
  have 1: "binary64 q \<le> q * u" unfolding u_def by (rule binary64_upper[OF q])
  have "0 \<le> binary64 q * 100" using binary64_nonneg[OF q] by simp
  from binary64_upper[OF this] have "binary64 (binary64 q * 100) \<le> binary64 q * 100 * u"
    by (simp add: u_def)
  also have "\<dots> \<le> (q * u) * 100 * u" using 1 u by (intro mult_right_mono) auto
  finally have x: "binary64 (binary64 q * 100) \<le> 100 * u\<^sup>2 * q"
    by (simp add: power2_eq_square mult_ac)
  have nn: "0 \<le> binary64 (binary64 q * 100)"
    using binary64_nonneg[OF q] by (intro binary64_nonneg) simp
  have "(of_nat (tenths b T) :: rat) = of_int \<lfloor>binary64 (binary64 q * 100) * 10 + 1 / 2\<rfloor>"
    unfolding tenths_def q_def using nn by (simp add: q_def)
  also have "\<dots> \<le> binary64 (binary64 q * 100) * 10 + 1 / 2" by (rule of_int_floor_le)
  also have "\<dots> \<le> (100 * u\<^sup>2 * q) * 10 + 1 / 2"
    by (intro add_right_mono mult_right_mono x) simp
  finally show ?thesis by (simp add: u_def q_def mult_ac)
qed

lemma sum_list_affine:
  "sum_list (map (\<lambda>(l, b). c * of_nat b + (1 / 2 :: rat)) languages) =
   c * of_nat (sum_list (map snd languages)) + of_nat (length languages) / 2"
  by (induction languages) (auto simp: algebra_simps)

lemma tenths_sum:
  assumes "0 < total_of languages"
  shows "2 * sum_list (map (\<lambda>(l, b). tenths b (total_of languages)) languages) \<le>
         2000 + length languages"
proof -
  define T where "T = total_of languages"
  define c where "c = 1000 * (1 + 1 / 2 ^ 53)\<^sup>2 / (of_nat T :: rat)"
  define S where "S = sum_list (map (\<lambda>(l, b). tenths b T) languages)"
  have T: "0 < T" using assms by (simp add: T_def)
  have "(of_nat S :: rat) = sum_list (map (\<lambda>(l, b). of_nat (tenths b T)) languages)"
    unfolding S_def by (induction languages) auto
  also have "\<dots> \<le> sum_list (map (\<lambda>(l, b). c * of_nat b + 1 / 2) languages)"
  proof (rule sum_list_mono)
    fix e assume "e \<in> set languages"
    obtain l b where e: "e = (l, b)" by (cases e)
    from tenths_upper[of b T] show "(case e of (l, b) \<Rightarrow> of_nat (tenths b T)) \<le>
        (case e of (l, b) \<Rightarrow> c * of_nat b + (1 / 2 :: rat))"
      by (simp add: e c_def)
  qed
  also have "\<dots> = c * of_nat T + of_nat (length languages) / 2"
    by (simp add: sum_list_affine T_def total_of_sum_list)
  also have "c * of_nat T = 1000 * (1 + 1 / 2 ^ 53)\<^sup>2" using T by (simp add: c_def)
  finally have "2 * (of_nat S :: rat) \<le> 2000 * (1 + 1 / 2 ^ 53)\<^sup>2 + of_nat (length languages)"
    by simp
  also have "\<dots> < 2001 + of_nat (length languages)" by (simp add: power2_eq_square)
  finally have "(of_nat (2 * S) :: rat) < of_nat (2001 + length languages)" by simp
  then have "2 * S < 2001 + length languages" by (simp only: of_nat_less_iff)
  then show ?thesis by (simp add: S_def T_def)
qed

lemma tenths_le:
  assumes "b \<le> T" "0 < T"
  shows "tenths b T \<le> 1000"
proof -
  have "(of_nat b / of_nat T :: rat) \<le> 1" using assms by (simp add: divide_le_eq_1)
  then have "1000 * (1 + 1 / 2 ^ 53)\<^sup>2 * (of_nat b / of_nat T) \<le> (1000 * (1 + 1 / 2 ^ 53)\<^sup>2 * 1 :: rat)"
    by (intro mult_left_mono) auto
  with tenths_upper[of b T] have "(of_nat (tenths b T) :: rat) \<le> 1000 * (1 + 1 / 2 ^ 53)\<^sup>2 + 1 / 2"
    by simp
  also have "\<dots> < 1001" by (simp add: power2_eq_square)
  finally have "(of_nat (tenths b T) :: rat) < of_nat 1001" by simp
  then have "tenths b T < 1001" by (simp only: of_nat_less_iff)
  then show ?thesis by simp
qed

lemma percentage_value_entry:
  assumes "0 < T"
  shows "percentage_value \<lparr>name = l, percentage = percent b T\<rparr> = of_nat (tenths b T) / 10"
proof -
  have "tenths b T mod 10 < 10" by simp
  from decimal_value_fixed1[OF this, of "tenths b T div 10"] show ?thesis
    by (simp add: percentage_value_def percent_pos[OF assms])
qed

lemma percentage_value_sum:
  assumes "0 < total_of languages"
  shows "sum_list (map percentage_value (percent_entries languages)) \<le>
         100 + of_nat (length languages) / 20"
proof -
  define T where "T = total_of languages"
  have T: "0 < T" using assms by (simp add: T_def)
  have "map percentage_value (percent_entries languages) =
        map (\<lambda>(l, b). of_nat (tenths b T) / 10) languages"
    by (simp add: percent_entries_alt case_prod_unfold percentage_value_entry[OF T] flip: T_def)
  then have "sum_list (map percentage_value (percent_entries languages)) =
      sum_list (map (\<lambda>(l, b). of_nat (tenths b T) / 10) languages)" by simp
  also have "\<dots> = of_nat (sum_list (map (\<lambda>(l, b). tenths b T) languages)) / 10"
    by (induction languages) (auto simp: add_divide_distrib)
  also have "\<dots> \<le> 100 + of_nat (length languages) / 20"
  proof -
    from tenths_sum[OF assms]
    have "(of_nat (2 * sum_list (map (\<lambda>(l, b). tenths b T) languages)) :: rat) \<le>
          of_nat (2000 + length languages)"
      unfolding T_def by (simp only: of_nat_le_iff)
    then show ?thesis by simp
  qed
  finally show ?thesis .
qed

lemma filter_take_ex: "\<exists>m. filter P (take n xs) = take m (filter P xs)"
proof (induction xs arbitrary: n)
  case Nil
  then show ?case by simp
next
  case (Cons x xs)
  show ?case
  proof (cases n)
    case 0
    have "filter P (take 0 (x # xs)) = take 0 (filter P (x # xs))" by simp
    with 0 show ?thesis by blast
  next
    case (Suc k)
    from Cons.IH[of k] obtain m where m: "filter P (take k xs) = take m (filter P xs)" by blast
    show ?thesis
    proof (cases "P x")
      case True
      with m Suc have "filter P (take n (x # xs)) = take (Suc m) (filter P (x # xs))" by simp
      then show ?thesis by blast
    next
      case False
      with m Suc have "filter P (take n (x # xs)) = take m (filter P (x # xs))" by simp
      then show ?thesis by blast
    qed
  qed
qed

lemma filter_percentage_sort:
  "filter (\<lambda>s. percentage s = p) (sort_key (\<lambda>s. - percentage_number s) xs) =
   filter (\<lambda>s. percentage s = p) xs"
proof -
  define k where "k = - (case parseFloat p of Num v \<Rightarrow> v | _ \<Rightarrow> 0)"
  have eq: "(\<lambda>s. - percentage_number s = k \<and> percentage s = p) = (\<lambda>s. percentage s = p)"
    by (auto simp: k_def percentage_number_def)
  have "filter (\<lambda>s. percentage s = p) (sort_key (\<lambda>s. - percentage_number s) xs) =
        filter (\<lambda>s. percentage s = p)
          (filter (\<lambda>s. - percentage_number s = k) (sort_key (\<lambda>s. - percentage_number s) xs))"
    by (simp add: eq)
  also have "\<dots> = filter (\<lambda>s. percentage s = p) (filter (\<lambda>s. - percentage_number s = k) xs)"
    by (simp only: sort_key_stable)
  also have "\<dots> = filter (\<lambda>s. percentage s = p) xs" by (simp add: eq)
  finally show ?thesis .
qed

subsection \<open>The claims on the languages\<close>

text \<open>
  Claim C7. No language returned by \<open>getLanguageStats\<close> (and so no line of the language
  fragment, which has one line for each returned language) has one of the names
  \<^verbatim>\<open>Open Policy Agent\<close>, \<^verbatim>\<open>SCSS\<close>, \<^verbatim>\<open>Scss\<close>, whatever its byte count. Every other
  name of a response with status 200 is kept in the table, \<^verbatim>\<open>scss\<close> among them: the
  match is exact.
\<close>

theorem excluded_languages_never_reported:
  "(\<forall>s \<in> set (fst (getLanguageStats env w repos io)).
      name s \<notin> {''Open Policy Agent'', ''SCSS'', ''Scss''}) \<and>
   (\<forall>l. l \<in> fst ` set (concat (map (fetched_languages env w) repos)) \<and>
        l \<notin> {''Open Policy Agent'', ''SCSS'', ''Scss''} \<longrightarrow>
        l \<in> fst ` set (languages_of env w repos io)) \<and>
   ''scss'' \<notin> set excludedLanguages"
proof (intro conjI ballI allI impI)
  fix s assume "s \<in> set (fst (getLanguageStats env w repos io))"
  with names_getLanguageStats[of env w repos io]
  have "name s \<in> set (map fst (languages_of env w repos io))" by auto
  then show "name s \<notin> {''Open Policy Agent'', ''SCSS'', ''Scss''}"
    unfolding languages_of_keys by (auto simp: set_Set_of excludedLanguages_def)
next
  fix l assume "l \<in> fst ` set (concat (map (fetched_languages env w) repos)) \<and>
        l \<notin> {''Open Policy Agent'', ''SCSS'', ''Scss''}"
  then have "l \<in> set (map fst (languages_of env w repos io))"
    unfolding languages_of_keys by (auto simp: set_Set_of excludedLanguages_def)
  then show "l \<in> fst ` set (languages_of env w repos io)" by simp
next
  show "''scss'' \<notin> set excludedLanguages" by (simp add: excludedLanguages_def)
qed

theorem excluded_languages_never_reported_witness:
  "\<lparr>name = ''scss'', percentage = ''100.0''\<rparr> \<in>
     set (fst (getLanguageStats demo_env scss_world [repo_of ''site''] empty_io)) \<and>
   name \<lparr>name = ''scss'', percentage = ''100.0''\<rparr> \<notin> {''Open Policy Agent'', ''SCSS'', ''Scss''} \<and>
   ''scss'' \<in> fst ` set (languages_of demo_env scss_world [repo_of ''site''] empty_io)"
proof -
  have out: "fst (getLanguageStats demo_env scss_world [repo_of ''site''] empty_io) =
      [\<lparr>name = ''scss'', percentage = ''100.0''\<rparr>]"
    unfolding getLanguageStats_fst by code_simp
  have f: "''scss'' \<in> fst ` set (concat (map (fetched_languages demo_env scss_world)
      [repo_of ''site'']))" by code_simp
  have n: "''scss'' \<notin> {''Open Policy Agent'', ''SCSS'', ''Scss''}" by simp
  from excluded_languages_never_reported[of demo_env scss_world "[repo_of ''site'']" empty_io] out f n show ?thesis
    by simp
qed

text \<open>
  Claim C10. When the total of the table is zero, every language that
  \<open>getLanguageStats\<close> returns has the percentage string \<^verbatim>\<open>NaN\<close> (its bytes are zero
  too, and the quotient of zero by zero is \<^verbatim>\<open>NaN\<close>).
\<close>

theorem zero_total_gives_NaN:
  assumes "total_of (languages_of env w repos io) = 0"
  shows "\<forall>s \<in> set (fst (getLanguageStats env w repos io)). percentage s = ''NaN''"
proof
  fix s assume "s \<in> set (fst (getLanguageStats env w repos io))"
  then have "s \<in> set (percent_entries (languages_of env w repos io))"
    unfolding getLanguageStats_fst using set_take_subset by (fastforce simp: set_sort_cmp)
  from percent_entries_total_zero[OF assms this] show "percentage s = ''NaN''" .
qed

theorem zero_total_gives_NaN_witness:
  "total_of (languages_of demo_env zero_world [repo_of ''page''] empty_io) = 0 \<and>
   fst (getLanguageStats demo_env zero_world [repo_of ''page''] empty_io) \<noteq> [] \<and>
   percentage (hd (fst (getLanguageStats demo_env zero_world [repo_of ''page''] empty_io))) = ''NaN''"
proof -
  have h: "total_of (languages_of demo_env zero_world [repo_of ''page''] empty_io) = 0"
    by code_simp
  have ne: "map name (fst (getLanguageStats demo_env zero_world [repo_of ''page''] empty_io)) =
      [''HTML'']" unfolding getLanguageStats_fst by code_simp
  then have ne': "fst (getLanguageStats demo_env zero_world [repo_of ''page''] empty_io) \<noteq> []"
    by auto
  then have "hd (fst (getLanguageStats demo_env zero_world [repo_of ''page''] empty_io)) \<in>
      set (fst (getLanguageStats demo_env zero_world [repo_of ''page''] empty_io))"
    by (rule hd_in_set)
  with zero_total_gives_NaN[OF h] h ne' show ?thesis by blast
qed

text \<open>
  Claim C6, as amended. \<open>getLanguageStats\<close> returns at most 10 languages, sorted by
  percentage descending; languages with the same percentage string keep the order of the
  table \<^verbatim>\<open>languages\<close>, which is the order in which the names were first met in the
  responses, repository after repository (the list sorted by bytes on lines 165--171 is
  only written to the console).
\<close>

theorem top10_sorted_ties_in_table_order:
  "length (fst (getLanguageStats env w repos io)) \<le> 10 \<and>
   sorted_wrt (\<lambda>a b. percentage_number b \<le> percentage_number a)
     (fst (getLanguageStats env w repos io)) \<and>
   (\<forall>p. \<exists>n. filter (\<lambda>s. percentage s = p) (fst (getLanguageStats env w repos io)) =
            take n (filter (\<lambda>s. percentage s = p)
                      (percent_entries (languages_of env w repos io)))) \<and>
   map name (percent_entries (languages_of env w repos io)) =
     Set_of [] (filter (\<lambda>l. l \<notin> set excludedLanguages)
                  (map fst (concat (map (fetched_languages env w) repos))))"
proof (intro conjI allI)
  let ?E = "percent_entries (languages_of env w repos io)"
  let ?S = "sort_key (\<lambda>s. - percentage_number s) ?E"
  show "length (fst (getLanguageStats env w repos io)) \<le> 10"
    by (simp add: getLanguageStats_sorted_key)
  have "sorted (map (\<lambda>s. - percentage_number s) ?S)" by simp
  then have "sorted_wrt (\<lambda>a b. percentage_number b \<le> percentage_number a) ?S"
    by (simp add: sorted_map)
  then show "sorted_wrt (\<lambda>a b. percentage_number b \<le> percentage_number a)
     (fst (getLanguageStats env w repos io))"
    unfolding getLanguageStats_sorted_key by (rule sorted_wrt_take)
  show "\<exists>n. filter (\<lambda>s. percentage s = p) (fst (getLanguageStats env w repos io)) =
            take n (filter (\<lambda>s. percentage s = p) ?E)" for p
    using filter_take_ex[of "\<lambda>s. percentage s = p" 10 ?S]
    by (simp add: getLanguageStats_sorted_key filter_percentage_sort)
  show "map name ?E = Set_of [] (filter (\<lambda>l. l \<notin> set excludedLanguages)
                  (map fst (concat (map (fetched_languages env w) repos))))"
    by (simp only: name_percent_entries languages_of_keys)
qed

lemma tie_world_entries:
  "fst (getLanguageStats demo_env tie_world
          [repo_of ''first'', repo_of ''second'', repo_of ''third''] empty_io) =
     [\<lparr>name = ''Python'', percentage = ''99.8''\<rparr>, \<lparr>name = ''Shell'', percentage = ''0.1''\<rparr>,
      \<lparr>name = ''Makefile'', percentage = ''0.1''\<rparr>]"
  unfolding getLanguageStats_fst by code_simp

lemma tie_world_table:
  "languages_of demo_env tie_world [repo_of ''first'', repo_of ''second'', repo_of ''third'']
     empty_io = [(''Shell'', 1), (''Python'', 1497), (''Makefile'', 2)]"
  by code_simp

text \<open>
  The claim as stated fails: \<open>Shell\<close> (1 byte, met first) and \<open>Makefile\<close> (2 bytes) both
  get \<open>0.1\<close>, and \<open>Shell\<close> comes first.
\<close>

theorem ties_not_by_bytes:
  "(let out = fst (getLanguageStats demo_env tie_world
                [repo_of ''first'', repo_of ''second'', repo_of ''third''] empty_io);
        languages = languages_of demo_env tie_world
                [repo_of ''first'', repo_of ''second'', repo_of ''third''] empty_io
    in out = [\<lparr>name = ''Python'', percentage = ''99.8''\<rparr>,
              \<lparr>name = ''Shell'', percentage = ''0.1''\<rparr>,
              \<lparr>name = ''Makefile'', percentage = ''0.1''\<rparr>] \<and>
       languages = [(''Shell'', 1), (''Python'', 1497), (''Makefile'', 2)] \<and>
       \<not> (\<forall>i j. i < j \<and> j < length out \<and> percentage (out ! i) = percentage (out ! j) \<longrightarrow>
                table_bytes languages (name (out ! j)) \<le>
                table_bytes languages (name (out ! i))))"
proof -
  have "\<not> (\<forall>i j. i < j \<and> j < length [\<lparr>name = ''Python'', percentage = ''99.8''\<rparr>,
              \<lparr>name = ''Shell'', percentage = ''0.1''\<rparr>,
              \<lparr>name = ''Makefile'', percentage = ''0.1''\<rparr>] \<and>
            percentage ([\<lparr>name = ''Python'', percentage = ''99.8''\<rparr>,
              \<lparr>name = ''Shell'', percentage = ''0.1''\<rparr>,
              \<lparr>name = ''Makefile'', percentage = ''0.1''\<rparr>] ! i) =
            percentage ([\<lparr>name = ''Python'', percentage = ''99.8''\<rparr>,
              \<lparr>name = ''Shell'', percentage = ''0.1''\<rparr>,
              \<lparr>name = ''Makefile'', percentage = ''0.1''\<rparr>] ! j) \<longrightarrow>
            table_bytes [(''Shell'', 1), (''Python'', 1497), (''Makefile'', 2)]
              (name ([\<lparr>name = ''Python'', percentage = ''99.8''\<rparr>,
              \<lparr>name = ''Shell'', percentage = ''0.1''\<rparr>,
              \<lparr>name = ''Makefile'', percentage = ''0.1''\<rparr>] ! j)) \<le>
            table_bytes [(''Shell'', 1), (''Python'', 1497), (''Makefile'', 2)]
              (name ([\<lparr>name = ''Python'', percentage = ''99.8''\<rparr>,
              \<lparr>name = ''Shell'', percentage = ''0.1''\<rparr>,
              \<lparr>name = ''Makefile'', percentage = ''0.1''\<rparr>] ! i)))"
  proof
    assume a: "\<forall>i j. i < j \<and> j < length [\<lparr>name = ''Python'', percentage = ''99.8''\<rparr>,
              \<lparr>name = ''Shell'', percentage = ''0.1''\<rparr>,
              \<lparr>name = ''Makefile'', percentage = ''0.1''\<rparr>] \<and>
            percentage ([\<lparr>name = ''Python'', percentage = ''99.8''\<rparr>,
              \<lparr>name = ''Shell'', percentage = ''0.1''\<rparr>,
              \<lparr>name = ''Makefile'', percentage = ''0.1''\<rparr>] ! i) =
            percentage ([\<lparr>name = ''Python'', percentage = ''99.8''\<rparr>,
              \<lparr>name = ''Shell'', percentage = ''0.1''\<rparr>,
              \<lparr>name = ''Makefile'', percentage = ''0.1''\<rparr>] ! j) \<longrightarrow>
            table_bytes [(''Shell'', 1), (''Python'', 1497), (''Makefile'', 2)]
              (name ([\<lparr>name = ''Python'', percentage = ''99.8''\<rparr>,
              \<lparr>name = ''Shell'', percentage = ''0.1''\<rparr>,
              \<lparr>name = ''Makefile'', percentage = ''0.1''\<rparr>] ! j)) \<le>
            table_bytes [(''Shell'', 1), (''Python'', 1497), (''Makefile'', 2)]
              (name ([\<lparr>name = ''Python'', percentage = ''99.8''\<rparr>,
              \<lparr>name = ''Shell'', percentage = ''0.1''\<rparr>,
              \<lparr>name = ''Makefile'', percentage = ''0.1''\<rparr>] ! i))"
    from a[rule_format, of 1 2] show False by (simp add: table_bytes_def)
  qed
  then show ?thesis
    unfolding Let_def tie_world_entries tie_world_table by simp
qed

text \<open>
  Claim C5, as amended. When the total is positive, the percentage of each non-excluded
  language is its share of the total bytes over the non-excluded languages, computed in
  binary64 and printed by \<^verbatim>\<open>toFixed(1)\<close>: digits, a point and exactly one digit, the
  value being at most \<open>100.0\<close>. The percentages are rounded one by one, so their sum
  over all non-excluded languages is at most \<open>100.0\<close> plus \<open>0.05\<close> for each language (and
  the languages returned are among them); it can exceed \<open>100.0\<close>.
\<close>

theorem percentages_rounded_sum_bound:
  assumes "0 < total_of (languages_of env w repos io)"
  shows "percent_entries (languages_of env w repos io) =
           map (\<lambda>(l, b). \<lparr>name = l, percentage = toFixed 1 (Num (binary64 (binary64
                  (of_nat b / of_nat (total_of (languages_of env w repos io))) * 100)))\<rparr>)
             (languages_of env w repos io) \<and>
         (\<forall>s \<in> set (percent_entries (languages_of env w repos io)).
            \<exists>a d. d < 10 \<and> percentage s = decimal a @ ''.'' @ [digit_char d] \<and>
                  percentage_value s = of_nat (10 * a + d) / 10 \<and> 10 * a + d \<le> 1000) \<and>
         sum_list (map percentage_value (percent_entries (languages_of env w repos io))) \<le>
           100 + of_nat (length (languages_of env w repos io)) / 20 \<and>
         set (fst (getLanguageStats env w repos io)) \<subseteq>
           set (percent_entries (languages_of env w repos io))"
proof (intro conjI ballI)
  let ?L = "languages_of env w repos io"
  let ?T = "total_of ?L"
  show "percent_entries ?L =
           map (\<lambda>(l, b). \<lparr>name = l, percentage = toFixed 1 (Num (binary64 (binary64
                  (of_nat b / of_nat ?T) * 100)))\<rparr>) ?L"
    using assms by (simp add: percent_entries_alt percent_def num_of_nat_def)
  show "sum_list (map percentage_value (percent_entries ?L)) \<le> 100 + of_nat (length ?L) / 20"
    by (rule percentage_value_sum[OF assms])
  show "set (fst (getLanguageStats env w repos io)) \<subseteq> set (percent_entries ?L)"
    unfolding getLanguageStats_fst
    by (rule order_trans[OF set_take_subset]) (simp add: set_sort_cmp)
  fix s assume "s \<in> set (percent_entries ?L)"
  then obtain l b where lb: "(l, b) \<in> set ?L"
    and s: "s = \<lparr>name = l, percentage = percent b ?T\<rparr>"
    by (auto simp: percent_entries_alt)
  let ?n = "tenths b ?T"
  have "?n mod 10 < 10" by simp
  moreover have "percentage s = decimal (?n div 10) @ ''.'' @ [digit_char (?n mod 10)]"
    by (simp add: s percent_pos[OF assms])
  moreover have "percentage_value s = of_nat (10 * (?n div 10) + ?n mod 10) / 10"
    by (simp add: s percentage_value_entry[OF assms])
  moreover have "10 * (?n div 10) + ?n mod 10 \<le> 1000"
    using tenths_le[OF bytes_le_total[OF lb] assms] by simp
  ultimately show "\<exists>a d. d < 10 \<and> percentage s = decimal a @ ''.'' @ [digit_char d] \<and>
                  percentage_value s = of_nat (10 * a + d) / 10 \<and> 10 * a + d \<le> 1000"
    by blast
qed

theorem percentages_rounded_sum_bound_witness:
  "0 < total_of (languages_of demo_env three_world [repo_of ''three''] empty_io) \<and>
   sum_list (map percentage_value
      (percent_entries (languages_of demo_env three_world [repo_of ''three''] empty_io))) \<le>
   100 + of_nat (length (languages_of demo_env three_world [repo_of ''three''] empty_io)) / 20"
proof -
  have h: "0 < total_of (languages_of demo_env three_world [repo_of ''three''] empty_io)"
    by code_simp
  from percentages_rounded_sum_bound[OF h] h show ?thesis by blast
qed

lemma three_world_entries:
  "fst (getLanguageStats demo_env three_world [repo_of ''three''] empty_io) =
     [\<lparr>name = ''C'', percentage = ''42.9''\<rparr>, \<lparr>name = ''Go'', percentage = ''28.6''\<rparr>,
      \<lparr>name = ''Rust'', percentage = ''28.6''\<rparr>]"
  unfolding getLanguageStats_fst by code_simp

lemma percentage_value_examples:
  "percentage_value \<lparr>name = n, percentage = ''42.9''\<rparr> = 429 / 10"
  "percentage_value \<lparr>name = n, percentage = ''28.6''\<rparr> = 286 / 10"
  by (simp_all add: percentage_value_def decimal_value_def is_digit_def digits_value_def)

text \<open>
  The claim as stated fails: three languages of 3, 2 and 2 bytes get \<open>42.9\<close>, \<open>28.6\<close>
  and \<open>28.6\<close>, which add up to \<open>100.1\<close>.
\<close>

theorem percentages_sum_exceeds_100:
  "map percentage (fst (getLanguageStats demo_env three_world [repo_of ''three''] empty_io)) =
     [''42.9'', ''28.6'', ''28.6''] \<and>
   sum_list (map percentage_value
     (fst (getLanguageStats demo_env three_world [repo_of ''three''] empty_io))) = 1001 / 10 \<and>
   \<not> sum_list (map percentage_value
     (fst (getLanguageStats demo_env three_world [repo_of ''three''] empty_io))) \<le> 100"
  by (simp add: three_world_entries percentage_value_examples)

section \<open>Properties of the requests\<close>

lemma githubRequest_rejected:
  assumes "rejected (https_get (api_request env p))"
  shows "githubRequest env https_get p io =
     (Inl (rejection (https_get (api_request env p))),
      io\<lparr>requests := requests io @ [api_request env p]\<rparr>)"
  using assms
  by (simp add: githubRequest_def api_request_def rejected_def rejection_def Let_def
        split: http_result.splits)

lemma githubRequest_resolved:
  assumes "\<not> rejected (https_get (api_request env p))"
  shows "\<exists>parsed. githubRequest env https_get p io =
     (Inr parsed, io\<lparr>requests := requests io @ [api_request env p]\<rparr>)"
  using assms
  by (simp add: githubRequest_def api_request_def rejected_def Let_def
        split: http_result.splits)

lemma githubRequest_requests:
  "requests (snd (githubRequest env https_get p io)) = requests io @ [api_request env p]"
  by (cases "rejected (https_get (api_request env p))")
     (use githubRequest_rejected[of https_get env p io] githubRequest_resolved[of https_get env p io]
      in auto)

lemma requests_console_log [simp]: "requests (console_log line io) = requests io"
  by (simp add: console_log_def)

lemma getCommitActivity_rejected:
  assumes "rejected (repo_commits w (commits_request env r))"
  shows "getCommitActivity env w (owner_login r) (repo_name r) io =
     ([], console_log (''Could not fetch commits for '' @ owner_login r @ ''/'' @ repo_name r)
            (io\<lparr>requests := requests io @ [commits_request env r]\<rparr>))"
  using githubRequest_rejected[of "repo_commits w" env _ io] assms
  by (simp add: getCommitActivity_def commits_request_def)

lemma getCommitActivity_fst:
  "fst (getCommitActivity env w (owner_login r) (repo_name r) io) = fetched_commits env w r"
  by (simp add: getCommitActivity_def githubRequest_def fetched_commits_def commits_request_def
        api_request_def Let_def split: http_result.splits)

lemma getCommitActivity_requests:
  "\<exists>q. requests (snd (getCommitActivity env w owner repo io)) = requests io @ [q]"
proof -
  let ?p = "''/repos/'' @ owner @ ''/'' @ repo @ ''/commits?author='' @
            template (USERNAME env) @ ''&per_page=100''"
  obtain res io' where g: "githubRequest env (repo_commits w) ?p io = (res, io')"
    by (cases "githubRequest env (repo_commits w) ?p io")
  with githubRequest_requests[of env "repo_commits w" ?p io]
  have q: "requests io' = requests io @ [api_request env ?p]" by simp
  have "requests (snd (getCommitActivity env w owner repo io)) = requests io'"
    using g by (cases res) (simp_all add: getCommitActivity_def)
  with q show ?thesis by simp
qed

lemma collect_dates_fst:
  "fst (collect_dates env w repos allDates io) =
   allDates @ concat (map (\<lambda>r. List.map_filter author_date (fetched_commits env w r)) repos)"
proof (induction repos arbitrary: allDates io)
  case Nil
  then show ?case by simp
next
  case (Cons r repos)
  obtain commits io' where g: "getCommitActivity env w (owner_login r) (repo_name r) io = (commits, io')"
    by (cases "getCommitActivity env w (owner_login r) (repo_name r) io")
  with getCommitActivity_fst[of env w r io] have "commits = fetched_commits env w r" by simp
  with g Cons.IH show ?case by (simp add: Let_def)
qed

lemma collect_dates_requests:
  "\<exists>rs. requests (snd (collect_dates env w repos allDates io)) = requests io @ rs"
proof (induction repos arbitrary: allDates io)
  case Nil
  then show ?case by simp
next
  case (Cons r repos)
  obtain commits io' where g: "getCommitActivity env w (owner_login r) (repo_name r) io = (commits, io')"
    by (cases "getCommitActivity env w (owner_login r) (repo_name r) io")
  with getCommitActivity_requests[of env w "owner_login r" "repo_name r" io]
  obtain q where q: "requests io' = requests io @ [q]" by auto
  from Cons.IH[of "allDates @ List.map_filter author_date commits" io']
  obtain rs where "requests (snd (collect_dates env w repos
      (allDates @ List.map_filter author_date commits) io')) = requests io' @ rs" by blast
  with g q show ?case by (simp add: Let_def)
qed

lemma aggregate_languages_rejected:
  assumes "rejected (repo_languages w (languages_request env r))"
  shows "aggregate_languages env w (r # repos) languages io =
     aggregate_languages env w repos languages
       (console_log (''Could not fetch languages for '' @ repo_name r)
          (io\<lparr>requests := requests io @ [languages_request env r]\<rparr>))"
  using githubRequest_rejected[of "repo_languages w" env _ io] assms
  by (simp add: languages_request_def api_request_def)

lemma aggregate_languages_requests:
  "\<exists>rs. requests (snd (aggregate_languages env w repos languages io)) = requests io @ rs"
proof (induction repos arbitrary: languages io)
  case Nil
  then show ?case by simp
next
  case (Cons r repos)
  let ?p = "''/repos/'' @ owner_login r @ ''/'' @ repo_name r @ ''/languages''"
  obtain res io' where g: "githubRequest env (repo_languages w) ?p io = (res, io')"
    by (cases "githubRequest env (repo_languages w) ?p io")
  with githubRequest_requests[of env "repo_languages w" ?p io]
  have q: "requests io' = requests io @ [api_request env ?p]" by simp
  show ?case
  proof (cases res)
    case (Inl e)
    from Cons.IH[of languages "console_log (''Could not fetch languages for '' @ repo_name r) io'"]
    obtain rs where "requests (snd (aggregate_languages env w repos languages
        (console_log (''Could not fetch languages for '' @ repo_name r) io'))) =
        requests io' @ rs" by auto
    with g Inl q show ?thesis by simp
  next
    case (Inr langs)
    from g Inr obtain L' io'' where
      step: "aggregate_languages env w (r # repos) languages io =
             aggregate_languages env w repos L' io''"
      and r: "requests io'' = requests io'"
      by (cases "0 < length (filter (\<lambda>l. l \<notin> set excludedLanguages) (map fst langs))")
         (auto simp: Let_def)
    from Cons.IH[of L' io'']
    obtain rs where "requests (snd (aggregate_languages env w repos L' io'')) =
        requests io'' @ rs" by blast
    with step q r show ?thesis by simp
  qed
qed

lemma getLanguageStats_requests:
  "\<exists>rs. requests (snd (getLanguageStats env w repos io)) = requests io @ rs"
proof -
  obtain languages io' where a: "aggregate_languages env w repos [] io = (languages, io')"
    by (cases "aggregate_languages env w repos [] io")
  with aggregate_languages_requests[of env w repos "[]" io]
  obtain rs where "requests io' = requests io @ rs" by auto
  with a show ?thesis by (simp add: getLanguageStats_def Let_def)
qed

lemma getAllRepos_loop_requests:
  assumes "getAllRepos_loop env w repos page io = Some y"
  shows "\<exists>rs. requests (snd y) = requests io @ repos_request env page # rs"
proof (rule getAllRepos_loop.raw_induct[where
      P = "\<lambda>env w repos page io y.
             \<exists>rs. requests (snd y) = requests io @ repos_request env page # rs", OF _ assms])
  fix loop :: "env \<Rightarrow> world \<Rightarrow> repo list \<Rightarrow> nat \<Rightarrow> io \<Rightarrow> ((js_error + repo list) \<times> io) option"
  fix env w repos page io y
  assume IH: "\<And>env w repos page io y. loop env w repos page io = Some y \<Longrightarrow>
      \<exists>rs. requests (snd y) = requests io @ repos_request env page # rs"
  let ?p = "''/user/repos?per_page=100&page='' @ decimal page @
            ''&affiliation=owner,collaborator,organization_member''"
  assume eq: "(case githubRequest env (user_repos w) ?p io of
      (Inl e, io) \<Rightarrow> Some (Inl e, io)
    | (Inr data, io) \<Rightarrow>
        let nonForkedRepos = filter (\<lambda>repo. \<not> fork repo) data;
            repos = repos @ nonForkedRepos; hasMore = length data = 100
        in if hasMore then loop env w repos (page + 1) io else Some (Inr repos, io)) = Some y"
  obtain res io' where g: "githubRequest env (user_repos w) ?p io = (res, io')"
    by (cases "githubRequest env (user_repos w) ?p io")
  with githubRequest_requests[of env "user_repos w" ?p io]
  have q: "requests io' = requests io @ [repos_request env page]"
    by (simp add: repos_request_def)
  show "\<exists>rs. requests (snd y) = requests io @ repos_request env page # rs"
  proof (cases res)
    case (Inl e)
    with eq g have "y = (Inl e, io')" by simp
    with q show ?thesis by simp
  next
    case (Inr data)
    show ?thesis
    proof (cases "length data = 100")
      case True
      with eq g Inr have lp: "loop env w (repos @ filter (\<lambda>repo. \<not> fork repo) data) (page + 1) io' = Some y"
        by (simp add: Let_def)
      from IH[OF lp]
      obtain rs where "requests (snd y) = requests io' @ repos_request env (page + 1) # rs"
        by blast
      with q have "requests (snd y) =
          requests io @ repos_request env page # (repos_request env (page + 1) # rs)" by simp
      then show ?thesis by blast
    next
      case False
      with eq g Inr have "y = (Inr (repos @ filter (\<lambda>repo. \<not> fork repo) data), io')"
        by (simp add: Let_def)
      with q show ?thesis by simp
    qed
  qed
qed

lemma main_first_request:
  assumes "main env w today = Some (out, io)"
  shows "\<exists>rs. requests io = repos_request env 1 # rs"
proof -
  let ?io0 = "console_log ''Fetching repositories...'' empty_io"
  have r0: "requests ?io0 = []" by (simp add: empty_io_def)
  from assms obtain res io1 where g: "getAllRepos_loop env w [] 1 ?io0 = Some (res, io1)"
    by (auto simp: main_def getAllRepos_def Let_def split: option.splits)
  from getAllRepos_loop_requests[OF g] r0
  obtain rs where rs: "requests io1 = repos_request env 1 # rs" by auto
  show ?thesis
  proof (cases res)
    case (Inl e)
    with assms g have "io = io1" by (simp add: main_def getAllRepos_def Let_def)
    with rs show ?thesis by blast
  next
    case (Inr repos)
    let ?io2 = "console_log ''Fetching commit data...''
        (console_log (''Found '' @ decimal (length repos) @ '' repositories'') io1)"
    obtain allDates io3 where c: "collect_dates env w repos [] ?io2 = (allDates, io3)"
      by (cases "collect_dates env w repos [] ?io2")
    with collect_dates_requests[of env w repos "[]" ?io2]
    obtain rs3 where rs3: "requests io3 = requests io1 @ rs3" by auto
    let ?io4 = "console_log ''Calculating statistics...'' io3"
    obtain langs io5 where l: "getLanguageStats env w repos ?io4 = (langs, io5)"
      by (cases "getLanguageStats env w repos ?io4")
    with getLanguageStats_requests[of env w repos ?io4]
    obtain rs5 where rs5: "requests io5 = requests io3 @ rs5" by auto
    from assms g Inr c l have "io = io5" by (simp add: main_def getAllRepos_def Let_def)
    with rs rs3 rs5 show ?thesis by simp
  qed
qed

lemma main_rejected:
  assumes "rejected (user_repos w (repos_request env 1))"
  shows "main env w today =
     Some (Exit_1 (rejection (user_repos w (repos_request env 1))),
           \<lparr>requests = [repos_request env 1], console = [''Fetching repositories...'']\<rparr>)"
proof -
  let ?io0 = "console_log ''Fetching repositories...'' empty_io"
  let ?p = "''/user/repos?per_page=100&page=1&affiliation=owner,collaborator,organization_member''"
  have d1: "decimal 1 = ''1''" by (subst decimal.simps) (simp add: digit_char_def)
  have p: "''/user/repos?per_page=100&page='' @ decimal 1 @
           ''&affiliation=owner,collaborator,organization_member'' = ?p"
    by (simp only: d1 append.simps)
  have rq: "repos_request env 1 = api_request env ?p"
    by (simp only: repos_request_def p)
  from assms have rej: "rejected (user_repos w (api_request env ?p))" by (simp only: rq)
  have g: "githubRequest env (user_repos w) ?p ?io0 =
      (Inl (rejection (user_repos w (api_request env ?p))),
       ?io0\<lparr>requests := requests ?io0 @ [api_request env ?p]\<rparr>)"
    by (rule githubRequest_rejected[of "user_repos w" env ?p ?io0, OF rej])
  have "getAllRepos env w ?io0 =
      Some (Inl (rejection (user_repos w (api_request env ?p))),
       ?io0\<lparr>requests := requests ?io0 @ [api_request env ?p]\<rparr>)"
    unfolding getAllRepos_def by (subst getAllRepos_loop.simps) (simp only: p g prod.case sum.case)
  then have "main env w today =
     Some (Exit_1 (rejection (user_repos w (api_request env ?p))),
           \<lparr>requests = [api_request env ?p], console = [''Fetching repositories...'']\<rparr>)"
    by (simp add: main_def Let_def console_log_def empty_io_def)
  then show ?thesis by (simp only: rq)
qed

text \<open>
  Claim C8. When the commit request of a repository is rejected, \<open>getCommitActivity\<close>
  returns no commits and writes \<^verbatim>\<open>Could not fetch commits for owner/repo\<close> to the
  console, and the loop of \<open>main\<close> goes on with the remaining repositories; a rejected
  language request is skipped in the same way, with the repository's name on the
  console. So the dates and the language table are those of the responses with status
  200.
\<close>

theorem fetch_failure_is_skipped:
  "(rejected (repo_commits w (commits_request env r)) \<longrightarrow>
      getCommitActivity env w (owner_login r) (repo_name r) io =
        ([], console_log (''Could not fetch commits for '' @ owner_login r @ ''/'' @ repo_name r)
               (io\<lparr>requests := requests io @ [commits_request env r]\<rparr>)) \<and>
      collect_dates env w (r # repos) allDates io =
        collect_dates env w repos allDates
          (console_log (''Could not fetch commits for '' @ owner_login r @ ''/'' @ repo_name r)
             (io\<lparr>requests := requests io @ [commits_request env r]\<rparr>))) \<and>
   (rejected (repo_languages w (languages_request env r)) \<longrightarrow>
      aggregate_languages env w (r # repos) languages io =
        aggregate_languages env w repos languages
          (console_log (''Could not fetch languages for '' @ repo_name r)
             (io\<lparr>requests := requests io @ [languages_request env r]\<rparr>))) \<and>
   fst (collect_dates env w repos allDates io) =
     allDates @ concat (map (\<lambda>r. List.map_filter author_date (fetched_commits env w r)) repos) \<and>
   fst (aggregate_languages env w repos languages io) =
     foldl add_language languages (concat (map (fetched_languages env w) repos))"
proof (intro conjI impI)
  assume rej: "rejected (repo_commits w (commits_request env r))"
  show g: "getCommitActivity env w (owner_login r) (repo_name r) io =
        ([], console_log (''Could not fetch commits for '' @ owner_login r @ ''/'' @ repo_name r)
               (io\<lparr>requests := requests io @ [commits_request env r]\<rparr>))"
    by (rule getCommitActivity_rejected[OF rej])
  show "collect_dates env w (r # repos) allDates io =
        collect_dates env w repos allDates
          (console_log (''Could not fetch commits for '' @ owner_login r @ ''/'' @ repo_name r)
             (io\<lparr>requests := requests io @ [commits_request env r]\<rparr>))"
    by (simp add: g List.map_filter_simps)
next
  assume "rejected (repo_languages w (languages_request env r))"
  then show "aggregate_languages env w (r # repos) languages io =
        aggregate_languages env w repos languages
          (console_log (''Could not fetch languages for '' @ repo_name r)
             (io\<lparr>requests := requests io @ [languages_request env r]\<rparr>))"
    by (rule aggregate_languages_rejected)
next
  show "fst (collect_dates env w repos allDates io) =
     allDates @ concat (map (\<lambda>r. List.map_filter author_date (fetched_commits env w r)) repos)"
    by (rule collect_dates_fst)
  show "fst (aggregate_languages env w repos languages io) =
     foldl add_language languages (concat (map (fetched_languages env w) repos))"
    by (rule aggregate_languages_fetched)
qed

theorem fetch_failure_is_skipped_witness:
  "rejected (repo_commits flaky_world (commits_request demo_env (repo_of ''first''))) \<and>
   getCommitActivity demo_env flaky_world ''octo'' ''first'' empty_io =
     ([], \<lparr>requests = [commits_request demo_env (repo_of ''first'')],
           console = [''Could not fetch commits for octo/first'']\<rparr>) \<and>
   fst (collect_dates demo_env flaky_world [repo_of ''first'', repo_of ''second''] [] empty_io) =
     [100] \<and>
   rejected (repo_languages flaky_world (languages_request demo_env (repo_of ''first''))) \<and>
   fst (aggregate_languages demo_env flaky_world [repo_of ''first'', repo_of ''second''] []
          empty_io) = [(''Shell'', 1)]"
proof -
  have c: "rejected (repo_commits flaky_world (commits_request demo_env (repo_of ''first'')))"
    by code_simp
  have l: "rejected (repo_languages flaky_world (languages_request demo_env (repo_of ''first'')))"
    by code_simp
  have d: "concat (map (\<lambda>r. List.map_filter author_date (fetched_commits demo_env flaky_world r))
      [repo_of ''first'', repo_of ''second'']) = [100]" by code_simp
  have f: "foldl add_language [] (concat (map (fetched_languages demo_env flaky_world)
      [repo_of ''first'', repo_of ''second''])) = [(''Shell'', 1)]" by code_simp
  have o: "owner_login (repo_of ''first'') = ''octo''" "repo_name (repo_of ''first'') = ''first''"
    by (simp_all add: repo_of_def)
  from fetch_failure_is_skipped[of flaky_world demo_env "repo_of ''first''" empty_io "[repo_of ''second'']" "[]" "[]"]
    fetch_failure_is_skipped[of flaky_world demo_env "repo_of ''first''" empty_io "[repo_of ''first'', repo_of ''second'']" "[]" "[]"]
    c l d f
  show ?thesis by (simp add: o console_log_def empty_io_def)
qed

text \<open>
  Claim C9, as amended. The script does not check the environment. Every run of \<open>main\<close>
  that returns has issued the request of the first page of repositories first, whatever
  the environment is; with no token its header reads \<^verbatim>\<open>Authorization: token undefined\<close>.
  A missing value shows only when the API rejects a request: the rejection of that first
  request ends the run with exit status 1, after that single request.
\<close>

theorem environment_not_checked:
  "(\<forall>out io. main env w today = Some (out, io) \<longrightarrow>
      (\<exists>rs. requests io = repos_request env 1 # rs)) \<and>
   (rejected (user_repos w (repos_request env 1)) \<longrightarrow>
      main env w today =
        Some (Exit_1 (rejection (user_repos w (repos_request env 1))),
              \<lparr>requests = [repos_request env 1], console = [''Fetching repositories...'']\<rparr>)) \<and>
   (GITHUB_TOKEN env = None \<longrightarrow>
      map_of (headers (repos_request env 1)) ''Authorization'' = Some ''token undefined'')"
proof (intro conjI allI impI)
  fix out io assume "main env w today = Some (out, io)"
  then show "\<exists>rs. requests io = repos_request env 1 # rs" by (rule main_first_request)
next
  assume "rejected (user_repos w (repos_request env 1))"
  then show "main env w today =
        Some (Exit_1 (rejection (user_repos w (repos_request env 1))),
              \<lparr>requests = [repos_request env 1], console = [''Fetching repositories...'']\<rparr>)"
    by (rule main_rejected)
next
  assume "GITHUB_TOKEN env = None"
  then show "map_of (headers (repos_request env 1)) ''Authorization'' = Some ''token undefined''"
    by (simp add: repos_request_def api_request_def template_def)
qed

theorem environment_not_checked_witness:
  "GITHUB_TOKEN no_env = None \<and>
   rejected (user_repos unauthorized_world (repos_request no_env 1)) \<and>
   main no_env unauthorized_world 0 =
     Some (Exit_1 (rejection (user_repos unauthorized_world (repos_request no_env 1))),
           \<lparr>requests = [repos_request no_env 1], console = [''Fetching repositories...'']\<rparr>) \<and>
   map_of (headers (repos_request no_env 1)) ''Authorization'' = Some ''token undefined''"
proof -
  have t: "GITHUB_TOKEN no_env = None" by (simp add: no_env_def)
  have r: "rejected (user_repos unauthorized_world (repos_request no_env 1))"
    by (simp add: rejected_def unauthorized_world_def)
  from environment_not_checked[of no_env unauthorized_world 0] t r show ?thesis by blast
qed

text \<open>
  The claim as stated fails: with neither variable set the request is issued, and the
  error is the one of the API's answer.
\<close>

theorem missing_token_request_issued:
  "GITHUB_TOKEN no_env = None \<and> USERNAME no_env = None \<and>
   main no_env unauthorized_world 0 =
     Some (Exit_1 (Error ''GitHub API error: 401 - Bad credentials''),
       \<lparr>requests = [\<lparr>hostname = ''api.github.com'',
            path = ''/user/repos?per_page=100&page=1&affiliation=owner,collaborator,organization_member'',
            http_method = ''GET'',
            headers = [(''User-Agent'', ''GitHub-Stats-Generator''),
               (''Authorization'', ''token undefined''),
               (''Accept'', ''application/vnd.github.v3+json'')]\<rparr>],
        console = [''Fetching repositories...'']\<rparr>)"
  by code_simp

end
